theory Spec2Isabelle
  imports Complex_Main
begin

section \<open>The grid tool of cornerstoneTools (src/tools/annotation/GridTool.js)\<close>

text \<open>
  A shallow embedding of \<^verbatim>\<open>GridTool\<close>. Coordinates are JavaScript numbers; they are
  modelled as reals, so every statement about coordinates is a statement of exact
  arithmetic. The repaint and event notifications sent to the host
  (\<^verbatim>\<open>updateImage\<close>, \<^verbatim>\<open>triggerEvent\<close>) do not touch the tool's own state and are left out.
\<close>

subsection \<open>Data model\<close>

type_synonym imageId = string
type_synonym uuid = nat

text \<open>The compact point of \<^verbatim>\<open>getStateForImageId(_, true)\<close>, and the handle built by
  \<^verbatim>\<open>FreehandHandleData\<close>, which extends it with two rendering flags.\<close>

record compactPoint =
  x :: real
  y :: real
  isCommonPoint :: bool

record point = compactPoint +
  handleHighlight :: bool
  handleActive :: bool

definition FreehandHandleData :: "real \<Rightarrow> real \<Rightarrow> bool \<Rightarrow> point" where
  "FreehandHandleData px py common =
     \<lparr>x = px, y = py, isCommonPoint = common, handleHighlight = True, handleActive = True\<rparr>"

text \<open>A primary line as held in the tool state: \<^verbatim>\<open>{uuid, active, highlight, handles: {points}}\<close>.
  \<^verbatim>\<open>highlight\<close> is absent until \<^verbatim>\<open>_endDrawing\<close> writes it.\<close>

record primaryLine =
  uuid :: uuid
  active :: bool
  highlight :: "bool option"
  points :: "point list"

text \<open>The compact line \<^verbatim>\<open>{points, uuid}\<close>: it has no \<^verbatim>\<open>handles\<close>.\<close>

record compactLine =
  compactPoints :: "compactPoint list"
  compactUuid :: uuid

text \<open>What the per-image store holds under the tool's name: the \<^verbatim>\<open>data\<close> array, whose lines
  have either the full or the compact shape.\<close>

datatype toolData = FullLines "primaryLine list" | CompactLines "compactLine list"

text \<open>The tool: its configuration (\<^verbatim>\<open>defaultToolConfiguration\<close>), its two private flags, the
  image shown by its element, the per-image store and the uuid supply.\<close>

record GridTool =
  currentHandle :: int
  currentTool :: int
  cfgMoveOneHandleOnly :: bool
  noOfPrimaryLinesDefault :: nat
  noOfSecondaryLinesDefault :: nat
  spacingDefault :: real
  spacingFor :: "imageId \<rightharpoonup> real"
  showRefinementPointsGlobal :: bool
  showRefinementPointsFor :: "imageId \<rightharpoonup> bool"
  highlightingPrimaryLineIdxInLoop :: nat
  highlightingSecondaryLineIdx :: "nat option"
  drawing :: bool
  modifying :: bool
  oldStateManager :: bool
  currentImageId :: imageId
  toolStateFor :: "imageId \<rightharpoonup> toolData"
  uuidSupply :: uuid

text \<open>How a call can end other than by returning: the \<^verbatim>\<open>Error\<close> thrown by a setter's type
  check, a \<^verbatim>\<open>TypeError\<close> from reading a property of \<^verbatim>\<open>undefined\<close> or \<^verbatim>\<open>null\<close>, and
  \<open>OutsideModel\<close> where the call goes on with \<^verbatim>\<open>NaN\<close>, an infinite number or a negative
  slot index, which this model does not follow. The state at that moment is kept: a JavaScript exception does not undo earlier writes.\<close>

datatype abnormal = ThrownError | ThrownTypeError | OutsideModel

type_synonym outcome = "(abnormal \<times> GridTool) + GridTool"

definition andThen :: "outcome \<Rightarrow> (GridTool \<Rightarrow> outcome) \<Rightarrow> outcome" where
  "andThen r f = (case r of Inl e \<Rightarrow> Inl e | Inr s \<Rightarrow> f s)"

fun forEach :: "('a \<Rightarrow> GridTool \<Rightarrow> outcome) \<Rightarrow> 'a list \<Rightarrow> GridTool \<Rightarrow> outcome" where
  "forEach f [] s = Inr s"
| "forEach f (a # as) s = (case f a s of Inl e \<Rightarrow> Inl e | Inr s' \<Rightarrow> forEach f as s')"

text \<open>JavaScript array reads: an index outside the array gives \<^verbatim>\<open>undefined\<close>.\<close>

definition elemAt :: "'a list \<Rightarrow> int \<Rightarrow> 'a option" where
  "elemAt xs i = (if 0 \<le> i \<and> i < int (length xs) then Some (xs ! nat i) else None)"

text \<open>\<^verbatim>\<open>splice(i, 0, v)\<close>: insertion before position \<open>i\<close>, at the end when \<open>i\<close> is past it.\<close>

definition splice :: "nat \<Rightarrow> 'a \<Rightarrow> 'a list \<Rightarrow> 'a list" where
  "splice i v xs = take i xs @ v # drop i xs"

subsection \<open>Tool state of the current image\<close>

text \<open>\<^verbatim>\<open>getToolState(this.element, this.name)\<close>: the entry of the image the element shows.\<close>

definition getToolState :: "GridTool \<Rightarrow> toolData option" where
  "getToolState s = toolStateFor s (currentImageId s)"

fun dataLength :: "toolData \<Rightarrow> nat" where
  "dataLength (FullLines d) = length d"
| "dataLength (CompactLines d) = length d"

text \<open>The guard \<^verbatim>\<open>!toolState || !toolState.data || !toolState.data.length\<close>.\<close>

definition noGrid :: "GridTool \<Rightarrow> bool" where
  "noGrid s = (case getToolState s of None \<Rightarrow> True | Some td \<Rightarrow> dataLength td = 0)"

text \<open>A non-empty array of compact lines: its lines have no \<^verbatim>\<open>handles\<close>, so reading
  \<^verbatim>\<open>line.handles.points\<close> throws.\<close>

definition handlesMissing :: "GridTool \<Rightarrow> bool" where
  "handlesMissing s = (case getToolState s of Some (CompactLines (l # ls)) \<Rightarrow> True | _ \<Rightarrow> False)"

definition dataOf :: "GridTool \<Rightarrow> primaryLine list" where
  "dataOf s = (case getToolState s of Some (FullLines d) \<Rightarrow> d | _ \<Rightarrow> [])"

definition setData :: "primaryLine list \<Rightarrow> GridTool \<Rightarrow> GridTool" where
  "setData d s = s\<lparr>toolStateFor := (toolStateFor s)(currentImageId s \<mapsto> FullLines d)\<rparr>"

text \<open>Modelled from the spec: \<^verbatim>\<open>uuidv4\<close> (util/uuidv4.js is not among the sources) returns
  "a freshly generated uuid"; here the next value of a counter.\<close>

definition uuidv4 :: "GridTool \<Rightarrow> uuid \<times> GridTool" where
  "uuidv4 s = (uuidSupply s, s\<lparr>uuidSupply := Suc (uuidSupply s)\<rparr>)"

definition createNewMeasurement :: "uuid \<Rightarrow> primaryLine" where
  "createNewMeasurement u = \<lparr>uuid = u, active = False, highlight = None, points = []\<rparr>"

text \<open>Modelled from the spec: \<^verbatim>\<open>addToolState(element, name, measurement, idx)\<close>
  (stateManagement/toolState.js is not among the sources) "inserts an empty line at
  \<open>atIndex\<close>", at the end when no index is given, and gives the line its uuid.\<close>

definition addNewMeasurementToState :: "nat option \<Rightarrow> GridTool \<Rightarrow> GridTool" where
  "addNewMeasurementToState idx s =
     (let (u, s1) = uuidv4 s;
          d = dataOf s1;
          l = createNewMeasurement u
      in setData (case idx of None \<Rightarrow> d @ [l] | Some i \<Rightarrow> splice i l d) s1)"

subsection \<open>Getters\<close>

definition totalNoOfPrimaryLines :: "GridTool \<Rightarrow> nat option" where
  "totalNoOfPrimaryLines s =
     (case getToolState s of None \<Rightarrow> None
      | Some td \<Rightarrow> if dataLength td = 0 then None else Some (dataLength td))"

text \<open>\<^verbatim>\<open>primaryLine.handles.points[0].isCommonPoint\<close>: \<open>None\<close> when the line has no point,
  where the read throws.\<close>

definition firstIsCommon :: "primaryLine \<Rightarrow> bool option" where
  "firstIsCommon l = (case points l of [] \<Rightarrow> None | p # ps \<Rightarrow> Some (isCommonPoint p))"

definition noOfPrimaryLinesOf :: "primaryLine list \<Rightarrow> abnormal + nat" where
  "noOfPrimaryLinesOf d =
     (if \<exists>l \<in> set d. firstIsCommon l = None then Inl ThrownTypeError
      else Inr (length (filter (\<lambda>l. firstIsCommon l = Some True) d)))"

definition noOfSecondaryLinesOf :: "primaryLine list \<Rightarrow> nat" where
  "noOfSecondaryLinesOf d = length (filter isCommonPoint (points (hd d)))"

definition totalNoOfSecondaryLinesOf :: "primaryLine list \<Rightarrow> nat" where
  "totalNoOfSecondaryLinesOf d = length (points (hd d))"

definition spacingOf :: "GridTool \<Rightarrow> real" where
  "spacingOf s = (case spacingFor s (currentImageId s) of None \<Rightarrow> spacingDefault s | Some v \<Rightarrow> v)"

definition spacing :: "GridTool \<Rightarrow> real option" where
  "spacing s = (if noGrid s then None else Some (spacingOf s))"

definition showRefinementPoints :: "GridTool \<Rightarrow> bool option" where
  "showRefinementPoints s = (if noGrid s then None else Some (showRefinementPointsGlobal s))"

text \<open>The getter used as a condition: \<^verbatim>\<open>null\<close> is falsy.\<close>

definition showRefinementPointsTruthy :: "GridTool \<Rightarrow> bool" where
  "showRefinementPointsTruthy s = (showRefinementPoints s = Some True)"

subsection \<open>Topology index\<close>

text \<open>\<^verbatim>\<open>getPreviousMainPrimaryLine\<close>: the index is decremented first; a line met on the way
  must have a first point (the read of \<^verbatim>\<open>points[0].isCommonPoint\<close> throws otherwise), and an
  index past the array throws at \<^verbatim>\<open>currentPrimaryLine.handles\<close>. \<^verbatim>\<open>null\<close> decrements to \<open>-1\<close>.\<close>

fun scanPreviousMain :: "primaryLine list \<Rightarrow> nat \<Rightarrow> abnormal + nat option" where
  "scanPreviousMain d 0 = Inr None"
| "scanPreviousMain d (Suc i) =
     (case elemAt d (int i) of
        None \<Rightarrow> Inl ThrownTypeError
      | Some l \<Rightarrow>
          (case firstIsCommon l of
             None \<Rightarrow> Inl ThrownTypeError
           | Some True \<Rightarrow> Inr (Some i)
           | Some False \<Rightarrow> scanPreviousMain d i))"

definition getPreviousMainPrimaryLine :: "primaryLine list \<Rightarrow> nat option \<Rightarrow> abnormal + nat option" where
  "getPreviousMainPrimaryLine d currentPrimaryLineIdx =
     (if d = [] then Inr None
      else case currentPrimaryLineIdx of None \<Rightarrow> Inr None | Some i \<Rightarrow> scanPreviousMain d i)"

text \<open>\<^verbatim>\<open>getNextMainPrimaryLine\<close>: the scan of the lines after the index, in order, to the first
  one whose first point is common; \<^verbatim>\<open>null\<close> at the end of the array.\<close>

fun scanNextMain :: "primaryLine list \<Rightarrow> nat \<Rightarrow> abnormal + nat option" where
  "scanNextMain [] i = Inr None"
| "scanNextMain (l # ls) i =
     (case firstIsCommon l of
        None \<Rightarrow> Inl ThrownTypeError
      | Some True \<Rightarrow> Inr (Some i)
      | Some False \<Rightarrow> scanNextMain ls (Suc i))"

definition getNextMainPrimaryLine :: "primaryLine list \<Rightarrow> nat \<Rightarrow> abnormal + nat option" where
  "getNextMainPrimaryLine d currentPrimaryLineIdx =
     (if d = [] then Inr None
      else scanNextMain (drop (Suc currentPrimaryLineIdx) d) (Suc currentPrimaryLineIdx))"

text \<open>\<^verbatim>\<open>getIthCommonPointOnPrimaryLine\<close>: the loop counts the common points met so far and
  returns the point at which the count reaches \<open>ithCommonPoint\<close>.\<close>

fun ithCommonPointLoop :: "point list \<Rightarrow> int \<Rightarrow> int \<Rightarrow> point option" where
  "ithCommonPointLoop [] commonPointIdx ith = None"
| "ithCommonPointLoop (p # ps) commonPointIdx ith =
     (let c = (if isCommonPoint p then commonPointIdx + 1 else commonPointIdx)
      in if c = ith then Some p else ithCommonPointLoop ps c ith)"

definition getIthCommonPointOnPrimaryLine :: "primaryLine list \<Rightarrow> nat \<Rightarrow> nat option \<Rightarrow> point option" where
  "getIthCommonPointOnPrimaryLine d ithCommonPoint primaryLineIdx =
     (case primaryLineIdx of
        None \<Rightarrow> None
      | Some k \<Rightarrow>
          (case elemAt d (int k) of
             None \<Rightarrow> None
           | Some l \<Rightarrow> ithCommonPointLoop (points l) (- 1) (int ithCommonPoint)))"

subsection \<open>Adding points and main lines\<close>

text \<open>The argument of \<^verbatim>\<open>addPoint\<close>: \<^verbatim>\<open>{x, y, primaryLineIdx, isCommonPoint}\<close>.\<close>

record linePoint = compactPoint +
  primaryLineIdx :: nat

definition addPoint :: "linePoint \<Rightarrow> GridTool \<Rightarrow> outcome" where
  "addPoint p s =
     (let d = dataOf s; i = primaryLineIdx p
      in if i < length d
         then Inr (setData (d[i := (d ! i)\<lparr>points := points (d ! i) @
                     [FreehandHandleData (x p) (y p) (isCommonPoint p)]\<rparr>]) s)
         else Inl (ThrownTypeError, s))"

text \<open>One point of a new main line past the first: the \<open>idx\<close>-th common point of the previous
  main line, moved by its distance from the one before, or by \<open>(spacing, 0)\<close> when there is
  no line before. \<open>None\<close> where a common point that is read does not exist.\<close>

definition nextMainLinePoint ::
  "primaryLine list \<Rightarrow> real \<Rightarrow> nat option \<Rightarrow> nat option \<Rightarrow> nat \<Rightarrow> linePoint option" where
  "nextMainLinePoint d sp prevPrimaryLineIdx prevPrevPrimaryLineIdx idx =
     (case getIthCommonPointOnPrimaryLine d idx prevPrimaryLineIdx of
        None \<Rightarrow> None
      | Some a \<Rightarrow>
          (case prevPrevPrimaryLineIdx of
             None \<Rightarrow>
               Some \<lparr>x = x a + sp, y = y a + 0, isCommonPoint = True, primaryLineIdx = length d - 1\<rparr>
           | Some pp \<Rightarrow>
               (case getIthCommonPointOnPrimaryLine d idx (Some pp) of
                  None \<Rightarrow> None
                | Some b \<Rightarrow>
                    Some \<lparr>x = x a + (x a - x b), y = y a + (y a - y b), isCommonPoint = True,
                          primaryLineIdx = length d - 1\<rparr>)))"

definition firstMainLinePoint :: "GridTool \<Rightarrow> real \<times> real \<Rightarrow> nat \<Rightarrow> linePoint" where
  "firstMainLinePoint s position idx =
     \<lparr>x = fst position + real_of_int (currentTool s) * spacingOf s,
      y = (if idx \<noteq> 0 then snd position + spacingOf s * real idx else snd position),
      isCommonPoint = True, primaryLineIdx = 0\<rparr>"

text \<open>\<^verbatim>\<open>generateMainPrimaryLine(primaryLineIndex, position)\<close>. All points are computed before
  the first is added. It is reached only where the array is not of the compact shape.\<close>

definition generateMainPrimaryLine :: "nat option \<Rightarrow> (real \<times> real) option \<Rightarrow> GridTool \<Rightarrow> outcome" where
  "generateMainPrimaryLine primaryLineIndex position s0 =
     (let s = addNewMeasurementToState primaryLineIndex s0; d = dataOf s
      in if length d < 2 then
           (if noOfSecondaryLinesDefault s = 0 then Inr s
            else case position of
                   None \<Rightarrow> Inl (ThrownTypeError, s)
                 | Some pos \<Rightarrow>
                     forEach addPoint
                       (map (firstMainLinePoint s pos) [0..<noOfSecondaryLinesDefault s]) s)
         else
           (case getPreviousMainPrimaryLine d primaryLineIndex of
              Inl e \<Rightarrow> Inl (e, s)
            | Inr prev \<Rightarrow>
                (case getPreviousMainPrimaryLine d prev of
                   Inl e \<Rightarrow> Inl (e, s)
                 | Inr prevPrev \<Rightarrow>
                     (let noOfPoints = (if position = None then noOfSecondaryLinesOf d
                                        else noOfSecondaryLinesDefault s)
                      in case those (map (nextMainLinePoint d (spacingOf s) prev prevPrev)
                                       [0..<noOfPoints]) of
                           None \<Rightarrow> Inl (ThrownTypeError, s)
                         | Some pts \<Rightarrow> forEach addPoint pts s))))"

subsection \<open>Drawing session\<close>

definition activateDraw :: "GridTool \<Rightarrow> GridTool" where
  "activateDraw s =
     (case totalNoOfPrimaryLines s of
        None \<Rightarrow> s\<lparr>drawing := True\<rparr>
      | Some n \<Rightarrow> s\<lparr>drawing := True, currentTool := int n - 1\<rparr>)"

text \<open>\<^verbatim>\<open>_endDrawing\<close>: with a current tool other than \<open>-1\<close> the line of that index, if there
  is one, is marked inactive; without a tool state the read of \<^verbatim>\<open>toolState.data\<close> throws.
  (The two flags of a compact line are not modelled.)\<close>

definition endDrawing :: "GridTool \<Rightarrow> outcome" where
  "endDrawing s =
     (if currentTool s \<noteq> - 1 \<and> getToolState s = None then Inl (ThrownTypeError, s)
      else
        (let s1 = (if currentTool s \<noteq> - 1 then
                     (case elemAt (dataOf s) (currentTool s) of
                        None \<Rightarrow> s
                      | Some l \<Rightarrow>
                          setData ((dataOf s)[nat (currentTool s) :=
                                     l\<lparr>active := False, highlight := Some False\<rparr>]) s)
                   else s)
         in Inr (s1\<lparr>modifying := False, currentHandle := 0, currentTool := 0, drawing := False\<rparr>)))"

definition completeDrawing :: "GridTool \<Rightarrow> outcome" where
  "completeDrawing s = (if \<not> drawing s then Inr s else endDrawing s)"

subsection \<open>Subsidiary lines\<close>

text \<open>A loop whose body can throw, skip (\<^verbatim>\<open>continue\<close>) or produce a value.\<close>

fun collect :: "('a \<Rightarrow> abnormal + 'b option) \<Rightarrow> 'a list \<Rightarrow> abnormal + 'b list" where
  "collect f [] = Inr []"
| "collect f (a # as) =
     (case f a of
        Inl e \<Rightarrow> Inl e
      | Inr r \<Rightarrow>
          (case collect f as of
             Inl e \<Rightarrow> Inl e
           | Inr rs \<Rightarrow> Inr (case r of None \<Rightarrow> rs | Some v \<Rightarrow> v # rs)))"

text \<open>The body of the two loops of \<^verbatim>\<open>_generateSubsidiaryPrimaryLine\<close>: the point of
  subsidiary line \<open>sub\<close> at slot \<open>pointIdx\<close>, a quarter step further from the main line
  \<open>from\<close> towards the next main line. A negative slot or line index reads \<^verbatim>\<open>undefined\<close>, and
  the first round of the loops throws.\<close>

definition subsidiaryPoint :: "primaryLine list \<Rightarrow> nat \<Rightarrow> nat \<times> nat \<Rightarrow> abnormal + linePoint option" where
  "subsidiaryPoint d fromMainPrimaryLineIdx sp =
     (let subsidiaryPrimaryLineIdx = fst sp; pointIdx = snd sp
      in case elemAt d (int fromMainPrimaryLineIdx) of
           None \<Rightarrow> Inl ThrownTypeError
         | Some fromLine \<Rightarrow>
             (case elemAt (points fromLine) (int pointIdx) of
                None \<Rightarrow> Inl ThrownTypeError
              | Some a \<Rightarrow>
                  if \<not> isCommonPoint a then Inr None
                  else
                    (case getNextMainPrimaryLine d fromMainPrimaryLineIdx of
                       Inl e \<Rightarrow> Inl e
                     | Inr None \<Rightarrow> Inr None
                     | Inr (Some nx) \<Rightarrow>
                         (case elemAt (points (d ! nx)) (int pointIdx) of
                            None \<Rightarrow> Inl ThrownTypeError
                          | Some b \<Rightarrow>
                              Inr (Some
                                \<lparr>x = x a + ((x b - x a) / 4) * (real subsidiaryPrimaryLineIdx + 1),
                                 y = y a + ((y b - y a) / 4) * (real subsidiaryPrimaryLineIdx + 1),
                                 isCommonPoint = False,
                                 primaryLineIdx =
                                   fromMainPrimaryLineIdx + subsidiaryPrimaryLineIdx + 1\<rparr>)))))"

definition generateSubsidiaryPrimaryLine :: "int \<Rightarrow> int option \<Rightarrow> bool \<Rightarrow> GridTool \<Rightarrow> outcome" where
  "generateSubsidiaryPrimaryLine fromMainPrimaryLineIdx fromSecondaryLineIdx createNewSubsidiaryLines s =
     (if noGrid s then Inr s
      else if handlesMissing s then Inl (ThrownTypeError, s)
      else
        (let d = dataOf s;
             firstIdx = (case fromSecondaryLineIdx of None \<Rightarrow> 0 | Some k \<Rightarrow> k)
         in if firstIdx < 0 then Inl (ThrownTypeError, s)
            else if fromMainPrimaryLineIdx < 0 \<and> nat firstIdx < totalNoOfSecondaryLinesOf d
            then Inl (ThrownTypeError, s)
            else
              (case collect (subsidiaryPoint d (nat fromMainPrimaryLineIdx))
                      (List.product [0..<3] [nat firstIdx..<totalNoOfSecondaryLinesOf d]) of
                 Inl e \<Rightarrow> Inl (e, s)
               | Inr pts \<Rightarrow>
                   forEach addPoint pts
                     (if createNewSubsidiaryLines
                      then addNewMeasurementToState (Some (nat (fromMainPrimaryLineIdx + 3)))
                             (addNewMeasurementToState (Some (nat (fromMainPrimaryLineIdx + 2)))
                               (addNewMeasurementToState (Some (nat (fromMainPrimaryLineIdx + 1))) s))
                      else s))))"

definition generateSubsidiaryPrimaryLines :: "int \<Rightarrow> int \<Rightarrow> bool \<Rightarrow> int option \<Rightarrow> GridTool \<Rightarrow> outcome" where
  "generateSubsidiaryPrimaryLines fromMainPrimaryLineIdx toMainPrimaryLineIdx createNewSubsidiaryLines
       fromSecondaryLineIdx s =
     forEach
       (\<lambda>call. generateSubsidiaryPrimaryLine (fromMainPrimaryLineIdx + 4 * int call)
                 fromSecondaryLineIdx createNewSubsidiaryLines)
       [0..<nat (toMainPrimaryLineIdx - fromMainPrimaryLineIdx)] s"

subsection \<open>Refinement points\<close>

lemma scanNextMain_bounds:
  "scanNextMain ls i = Inr (Some j) \<Longrightarrow> i \<le> j \<and> j < i + length ls"
proof (induction ls arbitrary: i)
  case Nil
  then show ?case by simp
next
  case (Cons l ls)
  show ?case
  proof (cases "firstIsCommon l")
    case None
    with Cons.prems show ?thesis by simp
  next
    case (Some b)
    show ?thesis
    proof (cases b)
      case True
      with Some Cons.prems show ?thesis by simp
    next
      case False
      with Some Cons.prems have "scanNextMain ls (Suc i) = Inr (Some j)" by simp
      from Cons.IH[OF this] show ?thesis by simp
    qed
  qed
qed

lemma getNextMainPrimaryLine_bounds:
  "getNextMainPrimaryLine d k = Inr (Some j) \<Longrightarrow> k < j \<and> j < length d"
  unfolding getNextMainPrimaryLine_def
  by (auto split: if_splits dest!: scanNextMain_bounds)

text \<open>The loop of \<^verbatim>\<open>getAllMainPrimaryLines\<close>: the indices of the main lines after \<open>k\<close>.\<close>

function allMainPrimaryLinesAfter :: "primaryLine list \<Rightarrow> nat \<Rightarrow> abnormal + nat list" where
  "allMainPrimaryLinesAfter d k =
     (case getNextMainPrimaryLine d k of
        Inl e \<Rightarrow> Inl e
      | Inr None \<Rightarrow> Inr []
      | Inr (Some j) \<Rightarrow>
          (case allMainPrimaryLinesAfter d j of
             Inl e \<Rightarrow> Inl e
           | Inr ks \<Rightarrow> Inr (j # ks)))"
  by pat_completeness auto
termination
  by (relation "measure (\<lambda>(d, k). length d - k)")
     (auto dest!: getNextMainPrimaryLine_bounds)

text \<open>The keys of the map \<^verbatim>\<open>getAllMainPrimaryLines\<close> returns, in insertion order.\<close>

definition getAllMainPrimaryLines :: "primaryLine list \<Rightarrow> nat option \<Rightarrow> abnormal + nat list" where
  "getAllMainPrimaryLines d fromPrimaryLineIdx =
     (case allMainPrimaryLinesAfter d (case fromPrimaryLineIdx of None \<Rightarrow> 0 | Some k \<Rightarrow> k) of
        Inl e \<Rightarrow> Inl e
      | Inr ks \<Rightarrow> Inr ((case fromPrimaryLineIdx of None \<Rightarrow> [] | Some k \<Rightarrow> [k]) @ ks))"

text \<open>\<^verbatim>\<open>pointsToAdd\<close> of one main line, as the list of its entries in ascending key order
  (the order \<^verbatim>\<open>Object.entries\<close> lists integer keys, and the order they are created in).
  The loop breaks at the first slot with no next common point.\<close>

fun pointsToAdd :: "primaryLine list \<Rightarrow> nat \<Rightarrow> nat list \<Rightarrow> (nat \<times> point) list" where
  "pointsToAdd d lineIdx [] = []"
| "pointsToAdd d lineIdx (secondaryLineIdx # rest) =
     (case (getIthCommonPointOnPrimaryLine d secondaryLineIdx (Some lineIdx),
            getIthCommonPointOnPrimaryLine d (secondaryLineIdx + 1) (Some lineIdx)) of
        (Some p, Some nextPoint) \<Rightarrow>
          (let xDiff = (x nextPoint - x p) / 4; yDiff = (y nextPoint - y p) / 4
           in [(secondaryLineIdx * 4 + 1, FreehandHandleData (x p + xDiff) (y p + yDiff) False),
               (secondaryLineIdx * 4 + 2, FreehandHandleData (x p + xDiff * 2) (y p + yDiff * 2) False),
               (secondaryLineIdx * 4 + 3, FreehandHandleData (x p + xDiff * 3) (y p + yDiff * 3) False)]
              @ pointsToAdd d lineIdx rest)
      | _ \<Rightarrow> [])"

definition insertRefinementPoints :: "nat option \<Rightarrow> nat \<Rightarrow> primaryLine list \<Rightarrow> primaryLine list" where
  "insertRefinementPoints fromSecondaryLineIdx lineIdx d =
     (let entries = pointsToAdd d lineIdx
                      [(case fromSecondaryLineIdx of None \<Rightarrow> 0 | Some k \<Rightarrow> k)..<noOfSecondaryLinesOf d]
      in if entries = [] then d
         else d[lineIdx := (d ! lineIdx)
                  \<lparr>points := fold (\<lambda>e ps. splice (fst e) (snd e) ps) entries
                               (points (d ! lineIdx))\<rparr>])"

text \<open>\<^verbatim>\<open>generateRefinementPointsOnCurrentPrimaryLines(options)\<close>; an option that is
  \<^verbatim>\<open>undefined\<close> is \<open>None\<close>, and the default is \<open>(Some 0, Some 0)\<close>.\<close>

definition generateRefinementPointsOnCurrentPrimaryLines ::
  "nat option \<Rightarrow> nat option \<Rightarrow> GridTool \<Rightarrow> outcome" where
  "generateRefinementPointsOnCurrentPrimaryLines fromPrimaryLineIdx fromSecondaryLineIdx s =
     (if noGrid s then Inr s
      else if handlesMissing s then Inl (ThrownTypeError, s)
      else
        (let d = dataOf s
         in case getAllMainPrimaryLines d
                   (if fromPrimaryLineIdx = Some 0 then None else fromPrimaryLineIdx) of
              Inl e \<Rightarrow> Inl (e, s)
            | Inr mainLines \<Rightarrow>
                (case (if fromSecondaryLineIdx \<noteq> None
                       then (case noOfPrimaryLinesOf d of
                               Inl e \<Rightarrow> Inl e
                             | Inr n \<Rightarrow> Inr (map (\<lambda>lineIdx. lineIdx * 4) [0..<n]))
                       else Inr mainLines) of
                   Inl e \<Rightarrow> Inl (e, s)
                 | Inr primaryLines \<Rightarrow>
                     Inr (setData (fold (insertRefinementPoints fromSecondaryLineIdx) primaryLines d) s))))"

text \<open>\<^verbatim>\<open>removeAllRefinementPoints\<close>: every line keeps its common points; then the lines from
  the last down to index 1 are visited and an empty one is removed.\<close>

fun removeEmptyLinesDownFrom :: "nat \<Rightarrow> primaryLine list \<Rightarrow> primaryLine list" where
  "removeEmptyLinesDownFrom 0 d = d"
| "removeEmptyLinesDownFrom (Suc t) d =
     removeEmptyLinesDownFrom t
       (if points (d ! Suc t) = [] then take (Suc t) d @ drop (Suc (Suc t)) d else d)"

definition removeAllRefinementPoints :: "GridTool \<Rightarrow> outcome" where
  "removeAllRefinementPoints s =
     (if noGrid s then Inr s
      else if handlesMissing s then Inl (ThrownTypeError, s)
      else
        (let d = map (\<lambda>l. l\<lparr>points := filter isCommonPoint (points l)\<rparr>) (dataOf s)
         in Inr (setData (removeEmptyLinesDownFrom (length d - 1) d) s)))"

subsection \<open>Removing and adding lines\<close>

fun popLines :: "nat \<Rightarrow> toolData \<Rightarrow> toolData" where
  "popLines n (FullLines d) = FullLines (take (length d - n) d)"
| "popLines n (CompactLines d) = CompactLines (take (length d - n) d)"

text \<open>\<^verbatim>\<open>removeLastPrimaryLine\<close>: four \<^verbatim>\<open>pop\<close>s with refinement shown, one without.\<close>

definition removeLastPrimaryLine :: "GridTool \<Rightarrow> outcome" where
  "removeLastPrimaryLine s =
     (case getToolState s of
        None \<Rightarrow> Inl (ThrownTypeError, s)
      | Some td \<Rightarrow>
          Inr (s\<lparr>toolStateFor := (toolStateFor s)(currentImageId s \<mapsto>
                 popLines (if showRefinementPointsTruthy s then 4 else 1) td)\<rparr>))"

text \<open>The body of the loop of \<^verbatim>\<open>generateSecondaryLine\<close> for one line.\<close>

definition secondaryLinePoint :: "nat \<Rightarrow> GridTool \<Rightarrow> outcome" where
  "secondaryLinePoint lineIdx s =
     (if showRefinementPointsTruthy s \<and> lineIdx mod 4 \<noteq> 0 then Inr s
      else
        (let pts = points (dataOf s ! lineIdx); noOfPoints = int (length pts)
         in case elemAt pts (noOfPoints - 1) of
              None \<Rightarrow> Inl (ThrownTypeError, s)
            | Some prevPoint \<Rightarrow>
                (case elemAt pts (if showRefinementPointsTruthy s then noOfPoints - 5
                                  else noOfPoints - 2) of
                   None \<Rightarrow>
                     addPoint \<lparr>x = x prevPoint + 0, y = y prevPoint + spacingOf s,
                               isCommonPoint = True, primaryLineIdx = lineIdx\<rparr> s
                 | Some prevPrevPoint \<Rightarrow>
                     addPoint \<lparr>x = x prevPoint + (x prevPoint - x prevPrevPoint),
                               y = y prevPoint + (y prevPoint - y prevPrevPoint),
                               isCommonPoint = True, primaryLineIdx = lineIdx\<rparr> s)))"

definition generateSecondaryLine :: "GridTool \<Rightarrow> outcome" where
  "generateSecondaryLine s =
     (if noGrid s then Inr s
      else if handlesMissing s then Inl (ThrownTypeError, s)
      else forEach secondaryLinePoint [0..<length (dataOf s)] s)"

definition popPoints :: "nat list \<Rightarrow> primaryLine list \<Rightarrow> primaryLine list" where
  "popPoints idxs d = fold (\<lambda>i d'. d'[i := (d' ! i)\<lparr>points := butlast (points (d' ! i))\<rparr>]) idxs d"

text \<open>\<^verbatim>\<open>removeLastSecondaryLine\<close>: one round over every line and, with refinement shown,
  three more rounds over every fourth line.\<close>

definition removeLastSecondaryLine :: "GridTool \<Rightarrow> outcome" where
  "removeLastSecondaryLine s =
     (if noGrid s then Inr s
      else if handlesMissing s then Inl (ThrownTypeError, s)
      else
        (let d = dataOf s;
             everyLine = [0..<length d];
             everyFourth = filter (\<lambda>i. i mod 4 = 0) [0..<length d]
         in Inr (setData
                  (if showRefinementPointsTruthy s
                   then popPoints everyFourth (popPoints everyFourth (popPoints everyFourth
                          (popPoints everyLine d)))
                   else popPoints everyLine d) s)))"

text \<open>Modelled from the spec: \<^verbatim>\<open>clearToolState\<close> (stateManagement/toolState.js is not among
  the sources) "clears all lines" of the current image, where it has a tool state.\<close>

definition clearToolState :: "GridTool \<Rightarrow> GridTool" where
  "clearToolState s =
     (case getToolState s of
        None \<Rightarrow> s
      | Some td \<Rightarrow> s\<lparr>toolStateFor := (toolStateFor s)(currentImageId s \<mapsto> FullLines [])\<rparr>)"

definition removeGrid :: "GridTool \<Rightarrow> GridTool" where
  "removeGrid s =
     (let s1 = clearToolState s
      in s1\<lparr>showRefinementPointsFor := (showRefinementPointsFor s1)(currentImageId s1 := None),
             spacingDefault := 5,
             spacingFor := Map.empty,
             highlightingPrimaryLineIdxInLoop := 0,
             highlightingSecondaryLineIdx := None\<rparr>)"

subsection \<open>Rotation and translation\<close>

definition getGridMiddlePointCoords :: "GridTool \<Rightarrow> abnormal + (real \<times> real) option" where
  "getGridMiddlePointCoords s =
     (if noGrid s then Inr None
      else if handlesMissing s then Inl ThrownTypeError
      else
        (let d = dataOf s; lastPoints = points (last d)
         in case (elemAt (points (hd d)) 0, elemAt lastPoints (int (length lastPoints) - 1)) of
              (Some upperLeft, Some bottomRight) \<Rightarrow>
                Inr (Some ((x upperLeft + x bottomRight) / 2, (y upperLeft + y bottomRight) / 2))
            | _ \<Rightarrow> Inl ThrownTypeError))"

definition mapPoints :: "(point \<Rightarrow> point) \<Rightarrow> primaryLine list \<Rightarrow> primaryLine list" where
  "mapPoints f d = map (\<lambda>l. l\<lparr>points := map f (points l)\<rparr>) d"

text \<open>The body of the loop of \<^verbatim>\<open>rotateGrid\<close> for one point. The cosine, the sine, the
  products and the sums are those of the real numbers: the rounding of the doubles the tool
  computes with is not modelled, so nothing here bounds a rounding error.\<close>

definition rotatePoint :: "real \<Rightarrow> real \<times> real \<Rightarrow> point \<Rightarrow> point" where
  "rotatePoint angle middle p =
     (let c = cos ((angle * pi) / 180);
          sn = sin ((angle * pi) / 180);
          px = x p - fst middle;
          py = y p - snd middle
      in p\<lparr>x := px * c - py * sn + fst middle, y := px * sn + py * c + snd middle\<rparr>)"

definition rotateGrid :: "real \<Rightarrow> GridTool \<Rightarrow> outcome" where
  "rotateGrid angle s =
     (if noGrid s then Inr s
      else case getGridMiddlePointCoords s of
             Inl e \<Rightarrow> Inl (e, s)
           | Inr None \<Rightarrow> Inl (ThrownTypeError, s)
           | Inr (Some middle) \<Rightarrow>
               (let s1 = activateDraw s
                in completeDrawing (setData (mapPoints (rotatePoint angle middle) (dataOf s1)) s1)))"

text \<open>\<^verbatim>\<open>setOffset(newLocation, usingMouseInput)\<close>, for finite coordinates.\<close>

definition setOffset :: "real \<times> real \<Rightarrow> bool \<Rightarrow> GridTool \<Rightarrow> outcome" where
  "setOffset newLocation usingMouseInput s =
     (if fst newLocation < 0 then Inr s
      else if snd newLocation < 0 then Inr s
      else
        (let d = dataOf s;
             tool = (if usingMouseInput then currentTool s else 0);
             handle = (if usingMouseInput then currentHandle s else 0)
         in case elemAt d tool of
              None \<Rightarrow> Inl (ThrownTypeError, s)
            | Some l \<Rightarrow>
                (case elemAt (points l) handle of
                   None \<Rightarrow> Inl (ThrownTypeError, s)
                 | Some p \<Rightarrow>
                     (let xChange = fst newLocation - x p; yChange = snd newLocation - y p
                      in Inr (setData (mapPoints (\<lambda>q. q\<lparr>x := x q + xChange, y := y q + yChange\<rparr>) d) s)))))"

subsection \<open>Spacing\<close>

text \<open>\<^verbatim>\<open>getAllPointsOnIthSecondaryLine\<close> returns references to points; here the positions
  (line index, point index) they are read at. A position outside a line reads \<^verbatim>\<open>undefined\<close>.\<close>

definition getAllPointsOnIthSecondaryLine :: "GridTool \<Rightarrow> nat \<Rightarrow> (nat \<times> nat) list" where
  "getAllPointsOnIthSecondaryLine s ithSecondaryLine =
     (if noGrid s then []
      else
        (let primaryLinesOffset =
               (if showRefinementPointsTruthy s \<and> ithSecondaryLine mod 4 \<noteq> 0 then 4 else (1::nat))
         in map (\<lambda>ithPrimaryLine.
                   (ithPrimaryLine,
                    if showRefinementPointsTruthy s \<and> ithPrimaryLine mod 4 \<noteq> 0
                    then ithSecondaryLine div 4 else ithSecondaryLine))
              (filter (\<lambda>i. i mod primaryLinesOffset = 0) [0..<length (dataOf s)])))"

text \<open>\<^verbatim>\<open>coordDiffBetweenFirstAndSecondPointOnPrimaryLine\<close>, both components. The test
  \<^verbatim>\<open>primaryLinePoints % 4 !== 0\<close> is made on the array of points, which converts to \<open>0\<close>
  when it is empty and to \<^verbatim>\<open>NaN\<close> otherwise.\<close>

definition coordDiffBetweenFirstAndSecondPointOnPrimaryLine ::
  "GridTool \<Rightarrow> nat \<Rightarrow> abnormal + (real \<times> real)" where
  "coordDiffBetweenFirstAndSecondPointOnPrimaryLine s lineIdx =
     (let d = dataOf s; primaryLinePoints = points (d ! lineIdx);
          secondPointOnMainPrimaryLine =
            (if showRefinementPointsTruthy s \<and> primaryLinePoints \<noteq> []
             then elemAt primaryLinePoints 1
             else getIthCommonPointOnPrimaryLine d 1 (Some lineIdx))
      in case (secondPointOnMainPrimaryLine, elemAt primaryLinePoints 0) of
           (Some q, Some p) \<Rightarrow> Inr (x q - x p, y q - y p)
         | _ \<Rightarrow> Inl ThrownTypeError)"

definition coordDiffBetweenFirstAndSecondMainPrimaryLine :: "GridTool \<Rightarrow> abnormal + (real \<times> real)" where
  "coordDiffBetweenFirstAndSecondMainPrimaryLine s =
     (let d = dataOf s
      in case getNextMainPrimaryLine d 0 of
           Inl e \<Rightarrow> Inl e
         | Inr None \<Rightarrow> Inl ThrownTypeError
         | Inr (Some nx) \<Rightarrow>
             (case (elemAt (points (d ! nx)) 0, elemAt (points (hd d)) 0) of
                (Some q, Some p) \<Rightarrow> Inr (x q - x p, y q - y p)
              | _ \<Rightarrow> Inl ThrownTypeError))"

text \<open>An assignment through a reference: it throws where the reference is \<^verbatim>\<open>undefined\<close>.\<close>

definition movePointTo :: "nat \<times> nat \<Rightarrow> real \<times> real \<Rightarrow> GridTool \<Rightarrow> outcome" where
  "movePointTo pos xy s =
     (let d = dataOf s; l = d ! fst pos
      in if fst pos < length d \<and> snd pos < length (points l)
         then Inr (setData (d[fst pos := l\<lparr>points := (points l)[snd pos :=
                     (points l ! snd pos)\<lparr>x := fst xy, y := snd xy\<rparr>]\<rparr>]) s)
         else Inl (ThrownTypeError, s))"

text \<open>The first loop of \<^verbatim>\<open>onSpacingChange\<close>, for one secondary line: its points are put
  at multiples of \<open>(ddx, ddy)\<close> from the point of line 0.\<close>

definition spacePrimaryLines :: "real \<times> real \<Rightarrow> nat \<Rightarrow> GridTool \<Rightarrow> outcome" where
  "spacePrimaryLines dd secondaryLineIdx s =
     (let pts = getAllPointsOnIthSecondaryLine s secondaryLineIdx;
          firstPoint = points (hd (dataOf s)) ! secondaryLineIdx;
          step = (if showRefinementPointsTruthy s \<and> secondaryLineIdx mod 4 \<noteq> 0 then 4 else (1::nat))
      in forEach
           (\<lambda>k. movePointTo (pts ! k)
                  (x firstPoint + fst dd * real (k * step), y firstPoint + snd dd * real (k * step)))
           [0..<length pts] s)"

text \<open>The second loop, for one primary line: its points are put at multiples of the scaled
  distance of its first two points.\<close>

definition spaceSecondaryLines :: "real \<Rightarrow> real \<Rightarrow> nat \<Rightarrow> GridTool \<Rightarrow> outcome" where
  "spaceSecondaryLines existingSpacing newSpacing lineIdx s =
     (case coordDiffBetweenFirstAndSecondPointOnPrimaryLine s lineIdx of
        Inl e \<Rightarrow> Inl (e, s)
      | Inr diff \<Rightarrow>
          (let dx = (fst diff / existingSpacing) * newSpacing;
               dy = (snd diff / existingSpacing) * newSpacing;
               d = dataOf s; l = d ! lineIdx; p0 = points l ! 0
           in Inr (setData (d[lineIdx := l\<lparr>points :=
                     map (\<lambda>pointIdx. (points l ! pointIdx)
                            \<lparr>x := x p0 + dx * real pointIdx, y := y p0 + dy * real pointIdx\<rparr>)
                       [0..<length (points l)]\<rparr>]) s)))"

text \<open>\<^verbatim>\<open>onSpacingChange(newSpacing, imageId)\<close>. A division by a spacing of zero gives
  \<^verbatim>\<open>NaN\<close> or an infinite number.\<close>

definition onSpacingChange :: "real \<Rightarrow> GridTool \<Rightarrow> outcome" where
  "onSpacingChange newSpacing s =
     (if noGrid s then Inr s
      else
        (let s1 = activateDraw s;
             existingSpacing = spacingOf s1
         in if handlesMissing s1 then Inl (ThrownTypeError, s1)
            else if existingSpacing = 0 then Inl (OutsideModel, s1)
            else
              (case coordDiffBetweenFirstAndSecondMainPrimaryLine s1 of
                 Inl e \<Rightarrow> Inl (e, s1)
               | Inr diff \<Rightarrow>
                   (let scaled = (if showRefinementPointsTruthy s1 then existingSpacing * 4
                                  else existingSpacing);
                        dd = ((fst diff / scaled) * newSpacing, (snd diff / scaled) * newSpacing)
                    in andThen
                         (forEach (spacePrimaryLines dd)
                            [0..<totalNoOfSecondaryLinesOf (dataOf s1)] s1)
                         (\<lambda>s2. andThen
                            (forEach (spaceSecondaryLines existingSpacing newSpacing)
                               [0..<length (dataOf s2)] s2)
                            (\<lambda>s3. completeDrawing
                               (s3\<lparr>spacingFor := (spacingFor s3)(currentImageId s3 \<mapsto> newSpacing)\<rparr>)))))))"

subsection \<open>Public configuration interface\<close>

text \<open>The values a caller can hand to a setter. \<^verbatim>\<open>typeof\<close> is \<^verbatim>\<open>'number'\<close> for a finite
  number and for \<^verbatim>\<open>NaN\<close>; the two infinite numbers are not modelled.\<close>

datatype jsValue = JSNumber real | JSNaN | JSBoolean bool | JSString string | JSNull | JSUndefined

text \<open>The refinement toggle. \<^verbatim>\<open>this.totalNoOfPrimaryLines - 1\<close> is \<open>-1\<close> without a grid.\<close>

definition set_showRefinementPoints :: "jsValue \<Rightarrow> GridTool \<Rightarrow> outcome" where
  "set_showRefinementPoints v s =
     (case v of
        JSBoolean b \<Rightarrow>
          if showRefinementPointsFor s (currentImageId s) = Some b then Inr s
          else
            andThen
              (if b then
                 andThen
                   (generateSubsidiaryPrimaryLines 0
                      ((case totalNoOfPrimaryLines s of None \<Rightarrow> 0 | Some n \<Rightarrow> int n) - 1) True None s)
                   (generateRefinementPointsOnCurrentPrimaryLines (Some 0) (Some 0))
               else removeAllRefinementPoints s)
              (\<lambda>s1. Inr (s1\<lparr>showRefinementPointsGlobal := b,
                            showRefinementPointsFor :=
                              (showRefinementPointsFor s1)(currentImageId s1 \<mapsto> b)\<rparr>))
      | _ \<Rightarrow> Inl (ThrownError, s))"

text \<open>\<^verbatim>\<open>addNewMeasurement(evt)\<close>, the initial placement at the clicked image position.\<close>

definition addNewMeasurement :: "real \<times> real \<Rightarrow> GridTool \<Rightarrow> outcome" where
  "addNewMeasurement position s =
     (if \<not> noGrid s then Inr s
      else
        andThen
          (forEach (\<lambda>lineIdx. generateMainPrimaryLine (Some lineIdx) (Some position))
             [0..<noOfPrimaryLinesDefault s] (activateDraw s))
          (\<lambda>s1. andThen (completeDrawing s1)
             (\<lambda>s2. set_showRefinementPoints (JSBoolean (showRefinementPointsGlobal s2)) s2)))"

text \<open>The getters \<^verbatim>\<open>noOfPrimaryLines\<close> and \<^verbatim>\<open>noOfSecondaryLines\<close>; \<open>None\<close> is \<^verbatim>\<open>null\<close>.\<close>

definition noOfPrimaryLines :: "GridTool \<Rightarrow> abnormal + nat option" where
  "noOfPrimaryLines s =
     (if noGrid s then Inr None
      else if handlesMissing s then Inl ThrownTypeError
      else case noOfPrimaryLinesOf (dataOf s) of Inl e \<Rightarrow> Inl e | Inr n \<Rightarrow> Inr (Some n))"

definition noOfSecondaryLines :: "GridTool \<Rightarrow> abnormal + nat option" where
  "noOfSecondaryLines s =
     (if noGrid s then Inr None
      else if handlesMissing s then Inl ThrownTypeError
      else Inr (Some (noOfSecondaryLinesOf (dataOf s))))"

text \<open>A counting loop \<^verbatim>\<open>while (existing < n) { body; existing++ }\<close>, whose body does not
  write the counter, runs its body \<open>\<lceil>n - existing\<rceil>\<close> times, up to the first throw.\<close>

fun repeatBody :: "nat \<Rightarrow> (nat \<Rightarrow> GridTool \<Rightarrow> outcome) \<Rightarrow> nat \<Rightarrow> GridTool \<Rightarrow> outcome" where
  "repeatBody 0 body existing s = Inr s"
| "repeatBody (Suc k) body existing s =
     (case body existing s of Inl e \<Rightarrow> Inl e | Inr s' \<Rightarrow> repeatBody k body (Suc existing) s')"

definition addPrimaryLine :: "nat \<Rightarrow> GridTool \<Rightarrow> outcome" where
  "addPrimaryLine existing s =
     andThen (generateMainPrimaryLine (totalNoOfPrimaryLines s) None s)
       (\<lambda>s1. if showRefinementPointsTruthy s1 then
                (case getPreviousMainPrimaryLine (dataOf s1) (totalNoOfPrimaryLines s1) of
                   Inl e \<Rightarrow> Inl (e, s1)
                 | Inr fromPrimaryLineIdx \<Rightarrow>
                     andThen (generateRefinementPointsOnCurrentPrimaryLines fromPrimaryLineIdx None s1)
                       (\<lambda>s2. generateSubsidiaryPrimaryLines
                                ((case totalNoOfPrimaryLines s2 of None \<Rightarrow> 0 | Some n \<Rightarrow> int n) - 2)
                                ((case totalNoOfPrimaryLines s2 of None \<Rightarrow> 0 | Some n \<Rightarrow> int n) - 1)
                                True None s2))
              else Inr s1)"

definition set_noOfPrimaryLines :: "jsValue \<Rightarrow> GridTool \<Rightarrow> outcome" where
  "set_noOfPrimaryLines v s =
     (case v of
        JSNumber newNoOfPrimaryLines \<Rightarrow>
          if newNoOfPrimaryLines < 2 then Inr s
          else
            (case noOfPrimaryLines s of
               Inl e \<Rightarrow> Inl (e, s)
             | Inr existing \<Rightarrow>
                 if existing \<noteq> None \<and> newNoOfPrimaryLines = real (the existing) then Inr s
                 else
                   (let n = (case existing of None \<Rightarrow> 0 | Some k \<Rightarrow> k)
                    in andThen
                         (if newNoOfPrimaryLines > real n
                          then repeatBody (nat \<lceil>newNoOfPrimaryLines - real n\<rceil>) addPrimaryLine n
                                 (activateDraw s)
                          else repeatBody (nat \<lceil>real n - newNoOfPrimaryLines\<rceil>)
                                 (\<lambda>existing. removeLastPrimaryLine) n (activateDraw s))
                         completeDrawing))
      | JSNaN \<Rightarrow> Inr s
      | _ \<Rightarrow> Inl (ThrownError, s))"

definition addSecondaryLine :: "nat \<Rightarrow> GridTool \<Rightarrow> outcome" where
  "addSecondaryLine existing s =
     andThen (generateSecondaryLine s)
       (\<lambda>s1. if showRefinementPointsTruthy s1 then
                (if existing = 0 then Inl (OutsideModel, s1)
                 else
                   andThen (generateRefinementPointsOnCurrentPrimaryLines None (Some (existing - 1)) s1)
                     (\<lambda>s2. case noOfPrimaryLines s2 of
                              Inl e \<Rightarrow> Inl (e, s2)
                            | Inr n \<Rightarrow>
                                generateSubsidiaryPrimaryLines 0
                                  (case n of None \<Rightarrow> 0 | Some k \<Rightarrow> int k) False
                                  (Some (int (totalNoOfSecondaryLinesOf (dataOf s2)) - 3)) s2))
              else Inr s1)"

definition set_noOfSecondaryLines :: "jsValue \<Rightarrow> GridTool \<Rightarrow> outcome" where
  "set_noOfSecondaryLines v s =
     (case v of
        JSNumber newNoOfSecondaryLines \<Rightarrow>
          if newNoOfSecondaryLines < 2 then Inr s
          else
            (case noOfSecondaryLines s of
               Inl e \<Rightarrow> Inl (e, s)
             | Inr existing \<Rightarrow>
                 if existing \<noteq> None \<and> newNoOfSecondaryLines = real (the existing) then Inr s
                 else
                   (let n = (case existing of None \<Rightarrow> 0 | Some k \<Rightarrow> k)
                    in andThen
                         (if newNoOfSecondaryLines > real n
                          then repeatBody (nat \<lceil>newNoOfSecondaryLines - real n\<rceil>) addSecondaryLine n
                                 (activateDraw s)
                          else repeatBody (nat \<lceil>real n - newNoOfSecondaryLines\<rceil>)
                                 (\<lambda>existing. removeLastSecondaryLine) n (activateDraw s))
                         completeDrawing))
      | JSNaN \<Rightarrow> Inr s
      | _ \<Rightarrow> Inl (ThrownError, s))"

definition set_spacing :: "jsValue \<Rightarrow> GridTool \<Rightarrow> outcome" where
  "set_spacing v s =
     (case v of
        JSNumber val \<Rightarrow> if val < 1 then Inr s else onSpacingChange val s
      | JSNaN \<Rightarrow> Inr s
      | _ \<Rightarrow> Inl (ThrownError, s))"

definition set_moveOneHandleOnly :: "jsValue \<Rightarrow> GridTool \<Rightarrow> outcome" where
  "set_moveOneHandleOnly v s =
     (case v of
        JSBoolean b \<Rightarrow> Inr (s\<lparr>cfgMoveOneHandleOnly := b\<rparr>)
      | _ \<Rightarrow> Inl (ThrownError, s))"

text \<open>The angle getter: \<^verbatim>\<open>null\<close> without a grid; with one, the rounded angle in degrees, or
  \<^verbatim>\<open>NaN\<close> where the quotient is \<open>0 / 0\<close>. A division of a non-zero number by zero is
  infinite, and its arc tangent is a right angle. \<^verbatim>\<open>Math.round\<close> rounds half up.\<close>

datatype angleValue = Degrees int | AngleNaN

definition angle :: "GridTool \<Rightarrow> abnormal + angleValue option" where
  "angle s =
     (if noGrid s then Inr None
      else if handlesMissing s then Inl ThrownTypeError
      else
        (let firstPoints = points (hd (dataOf s))
         in case (elemAt firstPoints 0,
                  elemAt firstPoints (int (totalNoOfSecondaryLinesOf (dataOf s)) - 1),
                  getGridMiddlePointCoords s) of
              (Some topLeftPoint, Some bottomLeftPoint, Inr (Some centerPoint)) \<Rightarrow>
                (let centerLeftX = (x topLeftPoint + x bottomLeftPoint) / 2;
                     centerLeftY = (y topLeftPoint + y bottomLeftPoint) / 2;
                     centerToAdjacentLength = fst centerPoint - centerLeftX;
                     adjacentToCenterLeftLength = snd centerPoint - centerLeftY
                 in Inr (Some
                      (if centerToAdjacentLength = 0 then
                         (if adjacentToCenterLeftLength = 0 then AngleNaN
                          else if adjacentToCenterLeftLength > 0 then Degrees 90
                          else Degrees (- 90))
                       else Degrees \<lfloor>arctan (adjacentToCenterLeftLength / centerToAdjacentLength)
                                        * 180 / pi + 1 / 2\<rfloor>)))
            | _ \<Rightarrow> Inl ThrownTypeError))"

definition set_angle :: "jsValue \<Rightarrow> GridTool \<Rightarrow> outcome" where
  "set_angle v s =
     (case v of
        JSNumber newAngle \<Rightarrow>
          if newAngle < 0 \<or> newAngle > 90 then Inr s
          else
            (case angle s of
               Inl e \<Rightarrow> Inl (e, s)
             | Inr None \<Rightarrow> rotateGrid (newAngle - 0) s
             | Inr (Some AngleNaN) \<Rightarrow> Inl (OutsideModel, s)
             | Inr (Some (Degrees a)) \<Rightarrow> rotateGrid (newAngle - real_of_int a) s)
      | JSNaN \<Rightarrow> Inr s
      | _ \<Rightarrow> Inl (ThrownError, s))"

subsection \<open>Per-image state: export and clone\<close>

definition compactOf :: "primaryLine \<Rightarrow> compactLine" where
  "compactOf l = \<lparr>compactPoints = map compactPoint.truncate (points l), compactUuid = uuid l\<rparr>"

text \<open>\<^verbatim>\<open>getStateForImageId(imageId, compact)\<close>; \<open>None\<close> is \<^verbatim>\<open>null\<close>. The compact projection
  reads \<^verbatim>\<open>handles.points\<close>, which a compact line does not have.\<close>

definition getStateForImageId :: "imageId \<Rightarrow> bool \<Rightarrow> GridTool \<Rightarrow> abnormal + toolData option" where
  "getStateForImageId imageId compactForm s =
     (if \<not> oldStateManager s then Inr None
      else case toolStateFor s imageId of
             None \<Rightarrow> Inr (Some (FullLines []))
           | Some td \<Rightarrow>
               if \<not> compactForm then Inr (Some td)
               else (case td of
                       FullLines d \<Rightarrow> Inr (Some (CompactLines (map compactOf d)))
                     | CompactLines [] \<Rightarrow> Inr (Some (CompactLines []))
                     | CompactLines (l # ls) \<Rightarrow> Inl ThrownTypeError))"

definition setShowRefinementPointsForImageId :: "imageId \<Rightarrow> bool \<Rightarrow> GridTool \<Rightarrow> GridTool" where
  "setShowRefinementPointsForImageId imageId val s =
     (if noGrid s then s
      else s\<lparr>showRefinementPointsGlobal := val,
             showRefinementPointsFor := (showRefinementPointsFor s)(imageId \<mapsto> val)\<rparr>)"

text \<open>The copy of the given lines with one fresh uuid after the other.\<close>

fun regenerateUuids :: "toolData \<Rightarrow> uuid \<Rightarrow> toolData" where
  "regenerateUuids (FullLines d) u =
     FullLines (map (\<lambda>(l, k). l\<lparr>uuid := u + k\<rparr>) (zip d [0..<length d]))"
| "regenerateUuids (CompactLines d) u =
     CompactLines (map (\<lambda>(l, k). l\<lparr>compactUuid := u + k\<rparr>) (zip d [0..<length d]))"

text \<open>Modelled from the spec: \<^verbatim>\<open>restoreImageIdToolState\<close> (the image-specific state manager
  is not among the sources) is the "place to store one ordered list of primary lines per
  image". Without an \<^verbatim>\<open>oldStateManager\<close> the call throws, after the uuids are drawn.\<close>

definition setStateForImageId :: "toolData \<Rightarrow> bool \<Rightarrow> imageId \<Rightarrow> GridTool \<Rightarrow> outcome" where
  "setStateForImageId primaryLines hasRefinementPoints imageId s =
     (let copiedState = regenerateUuids primaryLines (uuidSupply s);
          s1 = s\<lparr>uuidSupply := uuidSupply s + dataLength primaryLines\<rparr>
      in if \<not> oldStateManager s1 then Inl (ThrownTypeError, s1)
         else Inr (setShowRefinementPointsForImageId imageId hasRefinementPoints
                     (s1\<lparr>toolStateFor := (toolStateFor s1)(imageId \<mapsto> copiedState)\<rparr>)))"

definition setStateForImageIds :: "toolData \<Rightarrow> imageId list \<Rightarrow> bool \<Rightarrow> GridTool \<Rightarrow> outcome" where
  "setStateForImageIds primaryLines imageIds hasRefinementPoints s =
     forEach (setStateForImageId primaryLines hasRefinementPoints) imageIds s"

definition hasGridForImageIds :: "imageId list \<Rightarrow> GridTool \<Rightarrow> bool" where
  "hasGridForImageIds imageIds s =
     (length (filter (\<lambda>imageId.
                 case getStateForImageId imageId False s of
                   Inr (Some td) \<Rightarrow> dataLength td \<noteq> 0
                 | _ \<Rightarrow> False) imageIds)
      = length imageIds)"

text \<open>\<^verbatim>\<open>defaultToolConfiguration()\<close> on a newly constructed tool, with the two default line
  counts as given in the tool's properties.\<close>

definition newTool :: "nat \<Rightarrow> nat \<Rightarrow> imageId \<Rightarrow> GridTool" where
  "newTool primaryLines secondaryLines imageId =
     \<lparr>currentHandle = 0, currentTool = - 1, cfgMoveOneHandleOnly = False,
      noOfPrimaryLinesDefault = primaryLines, noOfSecondaryLinesDefault = secondaryLines,
      spacingDefault = 5, spacingFor = Map.empty,
      showRefinementPointsGlobal = False, showRefinementPointsFor = Map.empty,
      highlightingPrimaryLineIdxInLoop = 0, highlightingSecondaryLineIdx = None,
      drawing = False, modifying = False, oldStateManager = True,
      currentImageId = imageId, toolStateFor = Map.empty, uuidSupply = 0\<rparr>"

subsection \<open>Observations used in the statements\<close>

text \<open>A call returns, and the state it returns satisfies \<open>P\<close>.\<close>

definition returns :: "outcome \<Rightarrow> (GridTool \<Rightarrow> bool) \<Rightarrow> bool" where
  "returns r P = (case r of Inl e \<Rightarrow> False | Inr s \<Rightarrow> P s)"

definition gridCoordinates :: "GridTool \<Rightarrow> (real \<times> real) list list" where
  "gridCoordinates s = map (\<lambda>l. map (\<lambda>p. (x p, y p)) (points l)) (dataOf s)"

definition commonFlags :: "primaryLine list \<Rightarrow> bool list list" where
  "commonFlags d = map (\<lambda>l. map isCommonPoint (points l)) d"

text \<open>The midpoint between the first point of the first line and the last point of the
  last line.\<close>

definition middleOf :: "primaryLine list \<Rightarrow> real \<times> real" where
  "middleOf d = ((x (hd (points (hd d))) + x (last (points (last d)))) / 2,
                 (y (hd (points (hd d))) + y (last (points (last d)))) / 2)"

text \<open>A query result that is \<^verbatim>\<open>null\<close> or an empty array.\<close>

definition emptyResult :: "toolData option \<Rightarrow> bool" where
  "emptyResult r = (case r of None \<Rightarrow> True | Some td \<Rightarrow> dataLength td = 0)"

definition typeofNumber :: "jsValue \<Rightarrow> bool" where
  "typeofNumber v = (case v of JSNumber r \<Rightarrow> True | JSNaN \<Rightarrow> True | _ \<Rightarrow> False)"

definition typeofBoolean :: "jsValue \<Rightarrow> bool" where
  "typeofBoolean v = (case v of JSBoolean b \<Rightarrow> True | _ \<Rightarrow> False)"

text \<open>The grid of the concrete scenarios: three main lines of three common points, placed at
  \<open>(0, 0)\<close> by a tool that has ended a drawing session before (its current tool is 0).\<close>

definition grid33 :: GridTool where
  "grid33 = (case addNewMeasurement (0, 0) ((newTool 3 3 ''image'')\<lparr>currentTool := 0\<rparr>) of
               Inl (e, s) \<Rightarrow> s | Inr s \<Rightarrow> s)"

section \<open>Basic facts\<close>

lemma elemAt_0: "xs \<noteq> [] \<Longrightarrow> elemAt xs 0 = Some (hd xs)"
  by (cases xs) (simp_all add: elemAt_def)

lemma elemAt_last: "xs \<noteq> [] \<Longrightarrow> elemAt xs (int (length xs) - 1) = Some (last xs)"
proof -
  assume a: "xs \<noteq> []"
  then have "nat (int (length xs) - 1) = length xs - 1" by simp
  with a show ?thesis by (simp add: elemAt_def last_conv_nth del: One_nat_def)
qed

lemma dataOf_full: "getToolState s = Some (FullLines d) \<Longrightarrow> dataOf s = d"
  by (simp add: dataOf_def)

section \<open>Initial placement\<close>

text \<open>
  C2 (the code's behaviour at the failing input). On a newly constructed tool the current
  tool index is \<open>-1\<close>, and \<^verbatim>\<open>generateMainPrimaryLine\<close> adds \<open>currentTool * spacing\<close> to the
  anchor of the first line: the grid of 3 main lines with 3 common points placed at \<open>(0, 0)\<close>
  with spacing 5 has its first line at \<open>x = -5\<close>, not at the anchor.
\<close>

theorem C2_first_placement_is_shifted:
  "returns (addNewMeasurement (0, 0) (newTool 3 3 ''image''))
     (\<lambda>s. gridCoordinates s =
            [[(- 5, 0), (- 5, 5), (- 5, 10)], [(0, 0), (0, 5), (0, 10)], [(5, 0), (5, 5), (5, 10)]])"
  by code_simp

text \<open>Once a drawing session has ended the current tool index is 0, and the same placement
  gives the coordinates the scenario expects.\<close>

lemma placement_after_a_session:
  "returns (addNewMeasurement (0, 0) ((newTool 3 3 ''image'')\<lparr>currentTool := 0\<rparr>))
     (\<lambda>s. gridCoordinates s =
            [[(0, 0), (0, 5), (0, 10)], [(5, 0), (5, 5), (5, 10)], [(10, 0), (10, 5), (10, 10)]]
          \<and> commonFlags (dataOf s) = replicate 3 (replicate 3 True)
          \<and> showRefinementPointsGlobal s = False)"
  by code_simp

section \<open>Enabling refinement on a grid of 3 by 3\<close>

text \<open>
  C3. On every un-refined grid of 3 main lines with 3 common points each (whatever its
  coordinates), setting \<^verbatim>\<open>showRefinementPoints\<close> to \<^verbatim>\<open>true\<close> returns, and leaves 9 primary lines:
  the lines 0, 4 and 8 are main lines of 9 points, common at the positions 0, 4 and 8, and the
  six lines between them hold 3 refinement points each.
\<close>

theorem C3_refinement_of_3_by_3:
  assumes "getToolState s = Some (FullLines d)"
    and "commonFlags d = replicate 3 (replicate 3 True)"
    and "showRefinementPointsFor s (currentImageId s) \<noteq> Some True"
  shows "returns (set_showRefinementPoints (JSBoolean True) s)
     (\<lambda>s'. totalNoOfPrimaryLines s' = Some 9 \<and>
           noOfPrimaryLines s' = Inr (Some 3) \<and>
           commonFlags (dataOf s') =
             [[True, False, False, False, True, False, False, False, True],
              [False, False, False], [False, False, False], [False, False, False],
              [True, False, False, False, True, False, False, False, True],
              [False, False, False], [False, False, False], [False, False, False],
              [True, False, False, False, True, False, False, False, True]])"
proof -
  from assms(2) obtain l0 l1 l2 where d: "d = [l0, l1, l2]"
    and f: "map isCommonPoint (points l0) = [True, True, True]"
           "map isCommonPoint (points l1) = [True, True, True]"
           "map isCommonPoint (points l2) = [True, True, True]"
    by (auto simp: commonFlags_def numeral_3_eq_3 map_eq_Cons_conv)
  obtain a0 a1 a2 where p0: "points l0 = [a0, a1, a2]"
    using f(1) by (auto simp: map_eq_Cons_conv)
  obtain b0 b1 b2 where p1: "points l1 = [b0, b1, b2]"
    using f(2) by (auto simp: map_eq_Cons_conv)
  obtain c0 c1 c2 where p2: "points l2 = [c0, c1, c2]"
    using f(3) by (auto simp: map_eq_Cons_conv)
  show ?thesis
    using assms(1,3) d f p0 p1 p2
    by (simp add: returns_def commonFlags_def set_showRefinementPoints_def andThen_def
        generateSubsidiaryPrimaryLines_def generateSubsidiaryPrimaryLine_def
        totalNoOfPrimaryLines_def noOfPrimaryLines_def
        getToolState_def noGrid_def handlesMissing_def dataOf_def totalNoOfSecondaryLinesOf_def
        subsidiaryPoint_def elemAt_def getNextMainPrimaryLine_def firstIsCommon_def
        addNewMeasurementToState_def uuidv4_def setData_def createNewMeasurement_def splice_def
        addPoint_def FreehandHandleData_def generateRefinementPointsOnCurrentPrimaryLines_def
        getAllMainPrimaryLines_def noOfPrimaryLinesOf_def insertRefinementPoints_def
        noOfSecondaryLinesOf_def getIthCommonPointOnPrimaryLine_def Let_def upt_rec numeral_nat
        split: option.splits sum.splits)
qed

theorem C3_refinement_of_3_by_3_witness:
  "getToolState grid33 = Some (FullLines (dataOf grid33)) \<and>
   commonFlags (dataOf grid33) = replicate 3 (replicate 3 True) \<and>
   showRefinementPointsFor grid33 (currentImageId grid33) \<noteq> Some True \<and>
   returns (set_showRefinementPoints (JSBoolean True) grid33)
     (\<lambda>s'. totalNoOfPrimaryLines s' = Some 9 \<and>
           noOfPrimaryLines s' = Inr (Some 3) \<and>
           commonFlags (dataOf s') =
             [[True, False, False, False, True, False, False, False, True],
              [False, False, False], [False, False, False], [False, False, False],
              [True, False, False, False, True, False, False, False, True],
              [False, False, False], [False, False, False], [False, False, False],
              [True, False, False, False, True, False, False, False, True]])"
proof -
  have h1: "getToolState grid33 = Some (FullLines (dataOf grid33))" by code_simp
  have h2: "commonFlags (dataOf grid33) = replicate 3 (replicate 3 True)" by code_simp
  have h3: "showRefinementPointsFor grid33 (currentImageId grid33) \<noteq> Some True" by code_simp
  from C3_refinement_of_3_by_3[OF h1 h2 h3] h1 h2 h3 show ?thesis by blast
qed

section \<open>Rejected setter values\<close>

text \<open>
  C7. Each of the six setters throws its \<^verbatim>\<open>Error\<close> on a value of the wrong type (not a number
  for \<^verbatim>\<open>spacing\<close>, \<^verbatim>\<open>noOfPrimaryLines\<close>, \<^verbatim>\<open>noOfSecondaryLines\<close> and \<^verbatim>\<open>angle\<close>; not a boolean for
  \<^verbatim>\<open>showRefinementPoints\<close> and \<^verbatim>\<open>moveOneHandleOnly\<close>), and returns without an effect on a number
  out of range (a spacing below 1, a line count below 2, an angle outside 0 to 90) and on
  \<^verbatim>\<open>NaN\<close>. In both cases the state is the state before the call.
\<close>

theorem C7_setters_reject_without_effect:
  "(\<not> typeofNumber v \<longrightarrow>
      set_spacing v s = Inl (ThrownError, s) \<and> set_noOfPrimaryLines v s = Inl (ThrownError, s) \<and>
      set_noOfSecondaryLines v s = Inl (ThrownError, s) \<and> set_angle v s = Inl (ThrownError, s)) \<and>
   (\<not> typeofBoolean v \<longrightarrow>
      set_showRefinementPoints v s = Inl (ThrownError, s) \<and>
      set_moveOneHandleOnly v s = Inl (ThrownError, s)) \<and>
   (r < 1 \<longrightarrow> set_spacing (JSNumber r) s = Inr s) \<and>
   (r < 2 \<longrightarrow> set_noOfPrimaryLines (JSNumber r) s = Inr s \<and>
              set_noOfSecondaryLines (JSNumber r) s = Inr s) \<and>
   (r < 0 \<or> r > 90 \<longrightarrow> set_angle (JSNumber r) s = Inr s) \<and>
   set_spacing JSNaN s = Inr s \<and> set_noOfPrimaryLines JSNaN s = Inr s \<and>
   set_noOfSecondaryLines JSNaN s = Inr s \<and> set_angle JSNaN s = Inr s"
  by (cases v)
     (simp_all add: typeofNumber_def typeofBoolean_def set_spacing_def set_noOfPrimaryLines_def
        set_noOfSecondaryLines_def set_angle_def set_showRefinementPoints_def
        set_moveOneHandleOnly_def)

theorem C7_setters_reject_without_effect_witness:
  "\<not> typeofNumber (JSString ''7'') \<and> \<not> typeofBoolean (JSString ''7'') \<and> (0::real) < 1 \<and>
   set_spacing (JSString ''7'') grid33 = Inl (ThrownError, grid33) \<and>
   set_noOfPrimaryLines (JSString ''7'') grid33 = Inl (ThrownError, grid33) \<and>
   set_noOfSecondaryLines (JSString ''7'') grid33 = Inl (ThrownError, grid33) \<and>
   set_angle (JSString ''7'') grid33 = Inl (ThrownError, grid33) \<and>
   set_showRefinementPoints (JSString ''7'') grid33 = Inl (ThrownError, grid33) \<and>
   set_moveOneHandleOnly (JSString ''7'') grid33 = Inl (ThrownError, grid33) \<and>
   set_spacing (JSNumber 0) grid33 = Inr grid33 \<and>
   set_noOfPrimaryLines (JSNumber 0) grid33 = Inr grid33 \<and>
   set_noOfSecondaryLines (JSNumber 0) grid33 = Inr grid33 \<and>
   set_angle (JSNumber 91) grid33 = Inr grid33"
proof -
  have a: "\<not> typeofNumber (JSString ''7'')" "\<not> typeofBoolean (JSString ''7'')"
    by (simp_all add: typeofNumber_def typeofBoolean_def)
  have b: "(0::real) < 1" "(0::real) < 2" "(91::real) < 0 \<or> (91::real) > 90" by simp_all
  from C7_setters_reject_without_effect[of "JSString ''7''" grid33 0] a b(1,2)
       C7_setters_reject_without_effect[of "JSString ''7''" grid33 91] b(3)
  show ?thesis by blast
qed

section \<open>Queries without a grid\<close>

text \<open>
  C8. When the current image has no grid (no tool state, or an empty one), the getters
  \<^verbatim>\<open>angle\<close>, \<^verbatim>\<open>noOfPrimaryLines\<close>, \<^verbatim>\<open>noOfSecondaryLines\<close>, \<^verbatim>\<open>spacing\<close>, \<^verbatim>\<open>showRefinementPoints\<close> and
  \<^verbatim>\<open>totalNoOfPrimaryLines\<close> and \<^verbatim>\<open>getGridMiddlePointCoords\<close> return \<^verbatim>\<open>null\<close>, and
  \<^verbatim>\<open>getStateForImageId\<close> for that image returns \<^verbatim>\<open>null\<close> or an empty array; none of them throws.
\<close>

theorem C8_queries_without_grid:
  assumes "noGrid s"
  shows "angle s = Inr None \<and> noOfPrimaryLines s = Inr None \<and> noOfSecondaryLines s = Inr None \<and>
     getGridMiddlePointCoords s = Inr None \<and>
     spacing s = None \<and> showRefinementPoints s = None \<and> totalNoOfPrimaryLines s = None \<and>
     (\<exists>r. getStateForImageId (currentImageId s) compactForm s = Inr r \<and> emptyResult r)"
proof -
  have "\<exists>r. getStateForImageId (currentImageId s) compactForm s = Inr r \<and> emptyResult r"
    using assms
    by (auto simp: getStateForImageId_def emptyResult_def noGrid_def getToolState_def
             split: option.splits toolData.splits list.splits)
  moreover have "totalNoOfPrimaryLines s = None"
    using assms by (auto simp: totalNoOfPrimaryLines_def noGrid_def split: option.splits)
  ultimately show ?thesis using assms
    by (simp add: angle_def noOfPrimaryLines_def noOfSecondaryLines_def
          getGridMiddlePointCoords_def spacing_def showRefinementPoints_def)
qed

theorem C8_queries_without_grid_witness:
  "noGrid (newTool 10 10 ''image'') \<and>
   angle (newTool 10 10 ''image'') = Inr None \<and>
   noOfPrimaryLines (newTool 10 10 ''image'') = Inr None \<and>
   noOfSecondaryLines (newTool 10 10 ''image'') = Inr None \<and>
   getGridMiddlePointCoords (newTool 10 10 ''image'') = Inr None \<and>
   (\<exists>r. getStateForImageId (currentImageId (newTool 10 10 ''image'')) True (newTool 10 10 ''image'')
          = Inr r \<and> emptyResult r)"
proof -
  have h: "noGrid (newTool 10 10 ''image'')"
    by (simp add: noGrid_def getToolState_def newTool_def)
  from C8_queries_without_grid[OF h, of True] h show ?thesis by blast
qed

section \<open>The check for a grid on every image\<close>

text \<open>
  C9. \<^verbatim>\<open>hasGridForImageIds([])\<close> is \<^verbatim>\<open>true\<close> in every state of the tool, also when no image
  has a grid: no image is counted, and the count is compared with the length 0.
\<close>

theorem C9_hasGrid_of_no_image: "hasGridForImageIds [] s"
  by (simp add: hasGridForImageIds_def)

section \<open>What removing the grid changes\<close>

text \<open>
  C10. After \<^verbatim>\<open>removeGrid\<close> the current image has no line; the spacing configuration is the
  default 5 alone (every per-image spacing is gone); of the per-image refinement settings
  only the current image's is deleted; the global refinement flag is as before; and the
  stored state of every other image is as before.
\<close>

theorem C10_removeGrid_frame:
  "noGrid (removeGrid s) \<and>
   spacingDefault (removeGrid s) = 5 \<and>
   spacingFor (removeGrid s) = Map.empty \<and>
   showRefinementPointsFor (removeGrid s) = (showRefinementPointsFor s)(currentImageId s := None) \<and>
   showRefinementPointsGlobal (removeGrid s) = showRefinementPointsGlobal s \<and>
   (\<forall>imageId. imageId \<noteq> currentImageId s \<longrightarrow>
      toolStateFor (removeGrid s) imageId = toolStateFor s imageId)"
  by (auto simp: removeGrid_def clearToolState_def noGrid_def getToolState_def Let_def
           split: option.splits)

theorem C10_removeGrid_frame_witness:
  "noGrid (removeGrid grid33) \<and>
   spacingDefault (removeGrid grid33) = 5 \<and>
   showRefinementPointsGlobal (removeGrid grid33) = showRefinementPointsGlobal grid33 \<and>
   ''other'' \<noteq> currentImageId grid33 \<and>
   toolStateFor (removeGrid grid33) ''other'' = toolStateFor grid33 ''other''"
proof -
  have h: "''other'' \<noteq> currentImageId grid33" by code_simp
  from C10_removeGrid_frame[of grid33] h show ?thesis by blast
qed

section \<open>Rotation there and back, in exact arithmetic\<close>

lemma rotation_algebra:
  fixes c sn X Y :: real
  assumes "c * c + sn * sn = 1"
  shows "(X * c - Y * sn) * c + (X * sn + Y * c) * sn = X"
    and "(X * sn + Y * c) * c - (X * c - Y * sn) * sn = Y"
proof -
  have "(X * c - Y * sn) * c + (X * sn + Y * c) * sn = X * (c * c + sn * sn)"
    by (simp add: algebra_simps)
  with assms show "(X * c - Y * sn) * c + (X * sn + Y * c) * sn = X" by simp
  have "(X * sn + Y * c) * c - (X * c - Y * sn) * sn = Y * (c * c + sn * sn)"
    by (simp add: algebra_simps)
  with assms show "(X * sn + Y * c) * c - (X * c - Y * sn) * sn = Y" by simp
qed

lemma rotatePoint_inverse: "rotatePoint (- a) m (rotatePoint a m p) = p"
proof -
  define c where "c = cos (a * pi / 180)"
  define sn where "sn = sin (a * pi / 180)"
  have e: "c * c + sn * sn = 1"
    unfolding c_def sn_def using sin_cos_squared_add3[of "a * pi / 180"] by (simp add: add.commute)
  have c': "cos (- a * pi / 180) = c" and s': "sin (- a * pi / 180) = - sn"
    unfolding c_def sn_def by simp_all
  have "rotatePoint (- a) m (rotatePoint a m p) =
        p\<lparr>x := ((x p - fst m) * c - (y p - snd m) * sn) * c
                + ((x p - fst m) * sn + (y p - snd m) * c) * sn + fst m,
          y := ((x p - fst m) * sn + (y p - snd m) * c) * c
                - ((x p - fst m) * c - (y p - snd m) * sn) * sn + snd m\<rparr>"
    unfolding rotatePoint_def Let_def
    by (simp add: c_def[symmetric] sn_def[symmetric] c' s')
  also have "\<dots> = p"
    by (simp add: rotation_algebra[OF e])
  finally show ?thesis .
qed

text \<open>The middle of two points is the middle of their images under a rotation about it.\<close>

lemma rotatePoint_middle:
  assumes "m = ((x p + x q) / 2, (y p + y q) / 2)"
  shows "((x (rotatePoint a m p) + x (rotatePoint a m q)) / 2,
          (y (rotatePoint a m p) + y (rotatePoint a m q)) / 2) = m"
  unfolding assms
  by (simp_all add: rotatePoint_def Let_def algebra_simps add_divide_distrib diff_divide_distrib)

lemma getGridMiddlePointCoords_grid:
  assumes "getToolState s = Some (FullLines d)" "d \<noteq> []"
    and "points (hd d) \<noteq> []" "points (last d) \<noteq> []"
  shows "getGridMiddlePointCoords s = Inr (Some (middleOf d))"
  using assms
  by (simp add: getGridMiddlePointCoords_def noGrid_def handlesMissing_def dataOf_full
        elemAt_0 elemAt_last middleOf_def Let_def)

text \<open>What a rotation does: it returns, and every point is turned about the middle. (The
  session it opens and closes marks the last line inactive.)\<close>

lemma rotateGrid_effect:
  assumes "getToolState s = Some (FullLines d)" "d \<noteq> []"
    and "points (hd d) \<noteq> []" "points (last d) \<noteq> []"
  shows "\<exists>s1 d1. rotateGrid a s = Inr s1 \<and> getToolState s1 = Some (FullLines d1) \<and>
           map points d1 = map (\<lambda>l. map (rotatePoint a (middleOf d)) (points l)) d"
proof -
  have ng: "\<not> noGrid s" using assms(1,2) by (simp add: noGrid_def)
  have tot: "totalNoOfPrimaryLines s = Some (length d)"
    using assms(1,2) by (simp add: totalNoOfPrimaryLines_def)
  have len: "int (length d) - 1 \<noteq> - 1" "0 \<le> int (length d) - 1"
    "nat (int (length d) - 1) < length d"
    using assms(2) by (cases d; simp)+
  have upd: "(map (\<lambda>l. map F (points l)) d)[nat (int (length d) - 1) :=
                 map F (points (d ! nat (int (length d) - 1)))] = map (\<lambda>l. map F (points l)) d"
    for F :: "point \<Rightarrow> point"
    using len(3) by (simp add: list_update_same_conv)
  show ?thesis
    using assms(1) ng len
    by (simp add: rotateGrid_def getGridMiddlePointCoords_grid[OF assms] activateDraw_def tot
        completeDrawing_def endDrawing_def getToolState_def setData_def dataOf_def elemAt_def
        mapPoints_def Let_def map_update comp_def upd)
qed

text \<open>
  The formulas of the rotation, in exact arithmetic: on a grid whose first and last line
  have a point, \<^verbatim>\<open>rotateGrid(a)\<close> followed by \<^verbatim>\<open>rotateGrid(-a)\<close> returns and gives every line
  its original points back, both rotations turning about the same midpoint. This is a fact of
  the real numbers only. The tool computes in doubles, and the error their rounding leaves
  after the two rotations grows with the size of the coordinates; a bound on that error
  (claim C5 asks for \<open>1e-6\<close>) is a statement about floating-point arithmetic, which this
  development does not model and does not make.
\<close>

lemma rotation_there_and_back_exact:
  assumes "getToolState s = Some (FullLines d)" "d \<noteq> []"
    and "points (hd d) \<noteq> []" "points (last d) \<noteq> []"
  shows "getGridMiddlePointCoords s = Inr (Some (middleOf d)) \<and>
         returns (rotateGrid a s)
           (\<lambda>s1. getGridMiddlePointCoords s1 = Inr (Some (middleOf d)) \<and>
                 returns (rotateGrid (- a) s1) (\<lambda>s2. map points (dataOf s2) = map points d))"
proof -
  let ?f = "rotatePoint a (middleOf d)"
  from rotateGrid_effect[OF assms, of a] obtain s1 d1 where
    r1: "rotateGrid a s = Inr s1" and t1: "getToolState s1 = Some (FullLines d1)"
    and m1: "map points d1 = map (\<lambda>l. map ?f (points l)) d" by blast
  from m1 have len: "length d1 = length d" using length_map by metis
  with assms(2) have ne1: "d1 \<noteq> []" by auto
  have hd1: "points (hd d1) = map ?f (points (hd d))"
    using m1 ne1 assms(2) by (metis hd_map)
  have last1: "points (last d1) = map ?f (points (last d))"
    using m1 ne1 assms(2) by (metis last_map)
  have a3: "points (hd d1) \<noteq> []" and a4: "points (last d1) \<noteq> []"
    using hd1 last1 assms(3,4) by simp_all
  have mid: "middleOf d1 = middleOf d"
    using rotatePoint_middle[of "middleOf d" "hd (points (hd d))" "last (points (last d))" a]
    by (simp add: middleOf_def hd1 last1 hd_map last_map assms(3,4))
  from rotateGrid_effect[OF t1 ne1 a3 a4, of "- a"] obtain s2 d2 where
    r2: "rotateGrid (- a) s1 = Inr s2" and t2: "getToolState s2 = Some (FullLines d2)"
    and m2: "map points d2 = map (\<lambda>l. map (rotatePoint (- a) (middleOf d1)) (points l)) d1"
    by blast
  have "map points d2 = map (\<lambda>ps. map (rotatePoint (- a) (middleOf d)) ps) (map points d1)"
    using m2 by (simp add: mid comp_def)
  also have "\<dots> = map points d"
    by (simp add: m1 comp_def rotatePoint_inverse)
  finally have "map points (dataOf s2) = map points d" by (simp add: dataOf_full[OF t2])
  with r1 r2 getGridMiddlePointCoords_grid[OF assms]
    getGridMiddlePointCoords_grid[OF t1 ne1 a3 a4] mid
  show ?thesis by (simp add: returns_def)
qed

section \<open>Compact export and clone\<close>

lemma setStateForImageId_effect:
  assumes "oldStateManager s"
  shows "\<exists>s1. setStateForImageId pl has i s = Inr s1 \<and> oldStateManager s1 \<and>
           uuidSupply s1 = uuidSupply s + dataLength pl \<and>
           toolStateFor s1 = (toolStateFor s)(i \<mapsto> regenerateUuids pl (uuidSupply s))"
  using assms
  by (simp add: setStateForImageId_def setShowRefinementPointsForImageId_def Let_def)

text \<open>Every image of the list ends with a copy whose uuids were drawn during the call; the
  other images keep their state.\<close>

lemma setStateForImageIds_effect:
  assumes "oldStateManager s"
  shows "\<exists>s'. setStateForImageIds pl ids has s = Inr s' \<and> oldStateManager s' \<and>
           uuidSupply s \<le> uuidSupply s' \<and>
           (\<forall>t \<in> set ids. \<exists>u \<ge> uuidSupply s. toolStateFor s' t = Some (regenerateUuids pl u)) \<and>
           (\<forall>t. t \<notin> set ids \<longrightarrow> toolStateFor s' t = toolStateFor s t)"
  using assms
proof (induction ids arbitrary: s)
  case Nil
  then show ?case by (simp add: setStateForImageIds_def)
next
  case (Cons i ids)
  from setStateForImageId_effect[OF Cons.prems, of pl has i] obtain s1 where
    s1: "setStateForImageId pl has i s = Inr s1" "oldStateManager s1"
        "uuidSupply s1 = uuidSupply s + dataLength pl"
        "toolStateFor s1 = (toolStateFor s)(i \<mapsto> regenerateUuids pl (uuidSupply s))"
    by blast
  from Cons.IH[OF s1(2)] obtain s' where
    s': "setStateForImageIds pl ids has s1 = Inr s'" "oldStateManager s'"
        "uuidSupply s1 \<le> uuidSupply s'"
        "\<forall>t \<in> set ids. \<exists>u \<ge> uuidSupply s1. toolStateFor s' t = Some (regenerateUuids pl u)"
        "\<forall>t. t \<notin> set ids \<longrightarrow> toolStateFor s' t = toolStateFor s1 t"
    by blast
  have run: "setStateForImageIds pl (i # ids) has s = Inr s'"
    using s1(1) s'(1) by (simp add: setStateForImageIds_def)
  have le: "uuidSupply s \<le> uuidSupply s'" using s1(3) s'(3) by simp
  have each: "\<exists>u \<ge> uuidSupply s. toolStateFor s' t = Some (regenerateUuids pl u)"
    if "t \<in> set (i # ids)" for t
  proof (cases "t \<in> set ids")
    case True
    with s'(4) obtain u where "u \<ge> uuidSupply s1" "toolStateFor s' t = Some (regenerateUuids pl u)"
      by blast
    with s1(3) show ?thesis by (intro exI[of _ u]) simp
  next
    case False
    with that have "t = i" by simp
    with False s'(5) s1(4) show ?thesis by (intro exI[of _ "uuidSupply s"]) simp
  qed
  have other: "toolStateFor s' t = toolStateFor s t" if "t \<notin> set (i # ids)" for t
    using that s'(5) s1(4) by simp
  from run s'(2) le each other show ?case by blast
qed

text \<open>
  C6. Let an image hold a grid whose uuids were drawn from the tool's supply. The compact
  export of that image, cloned by \<^verbatim>\<open>setStateForImageIds\<close> onto a list of images, leaves on
  each target as many lines as the source has, with the same points (\<open>x\<close>, \<open>y\<close>,
  \<open>isCommonPoint\<close>) in the same order, and with uuids that differ from every uuid of the
  source. The stored lines are compact lines.
\<close>

theorem C6_compact_export_then_clone:
  assumes "oldStateManager s"
    and "toolStateFor s source = Some (FullLines d)"
    and "\<forall>l \<in> set d. uuid l < uuidSupply s"
    and "target \<in> set imageIds"
  shows "\<exists>exported s' cloned.
           getStateForImageId source True s = Inr (Some (CompactLines exported)) \<and>
           setStateForImageIds (CompactLines exported) imageIds hasRefinementPoints s = Inr s' \<and>
           getStateForImageId target False s' = Inr (Some (CompactLines cloned)) \<and>
           map compactPoints cloned = map (\<lambda>l. map compactPoint.truncate (points l)) d \<and>
           (\<forall>c \<in> set cloned. \<forall>l \<in> set d. compactUuid c \<noteq> uuid l)"
proof -
  let ?ex = "map compactOf d"
  have ex: "getStateForImageId source True s = Inr (Some (CompactLines ?ex))"
    using assms(1,2) by (simp add: getStateForImageId_def)
  from setStateForImageIds_effect[OF assms(1), of "CompactLines ?ex" imageIds hasRefinementPoints]
  obtain s' where s': "setStateForImageIds (CompactLines ?ex) imageIds hasRefinementPoints s = Inr s'"
      "oldStateManager s'"
      "\<forall>t \<in> set imageIds. \<exists>u \<ge> uuidSupply s.
          toolStateFor s' t = Some (regenerateUuids (CompactLines ?ex) u)"
    by blast
  from s'(3) assms(4) obtain u where u: "u \<ge> uuidSupply s"
     "toolStateFor s' target = Some (regenerateUuids (CompactLines ?ex) u)" by blast
  let ?cl = "map (\<lambda>(l, k). l\<lparr>compactUuid := u + k\<rparr>) (zip ?ex [0..<length ?ex])"
  have rd: "getStateForImageId target False s' = Inr (Some (CompactLines ?cl))"
    using s'(2) u(2) by (simp add: getStateForImageId_def)
  have pts: "map compactPoints ?cl = map (\<lambda>l. map compactPoint.truncate (points l)) d"
    by (rule nth_equalityI) (simp_all add: compactOf_def)
  have fresh: "\<forall>c \<in> set ?cl. \<forall>l \<in> set d. compactUuid c \<noteq> uuid l"
  proof (intro ballI)
    fix c l assume "c \<in> set ?cl" "l \<in> set d"
    then obtain k where "compactUuid c = u + k" by (auto simp: set_zip)
    moreover from \<open>l \<in> set d\<close> assms(3) have "uuid l < uuidSupply s" by blast
    ultimately show "compactUuid c \<noteq> uuid l" using u(1) by simp
  qed
  from ex s'(1) rd pts fresh show ?thesis by blast
qed

theorem C6_compact_export_then_clone_witness:
  "\<exists>exported s' cloned.
     getStateForImageId ''image'' True grid33 = Inr (Some (CompactLines exported)) \<and>
     setStateForImageIds (CompactLines exported) [''other''] False grid33 = Inr s' \<and>
     getStateForImageId ''other'' False s' = Inr (Some (CompactLines cloned)) \<and>
     map compactPoints cloned = map (\<lambda>l. map compactPoint.truncate (points l)) (dataOf grid33) \<and>
     (\<forall>c \<in> set cloned. \<forall>l \<in> set (dataOf grid33). compactUuid c \<noteq> uuid l)"
proof -
  have h1: "oldStateManager grid33" by code_simp
  have h2: "toolStateFor grid33 ''image'' = Some (FullLines (dataOf grid33))" by code_simp
  have h3: "list_all (\<lambda>l. uuid l < uuidSupply grid33) (dataOf grid33)" by code_simp
  have h4: "''other'' \<in> set [''other'']" by simp
  from C6_compact_export_then_clone[OF h1 h2 h3[unfolded list_all_iff] h4] show ?thesis .
qed

text \<open>The cloned lines have no \<^verbatim>\<open>handles\<close>: the compact export of the target image, which
  reads \<^verbatim>\<open>handles.points\<close>, throws.\<close>

lemma compact_clone_is_not_exportable:
  "returns (setStateForImageIds (CompactLines (map compactOf (dataOf grid33))) [''other''] False grid33)
     (\<lambda>s'. getStateForImageId ''other'' True s' = Inl ThrownTypeError)"
  by code_simp

section \<open>The state with a given grid\<close>

text \<open>The state that differs from \<open>s\<close> in the lines of the current image and in the uuid
  supply. Every state with full lines on the current image is of this form.\<close>

definition withGrid :: "primaryLine list \<Rightarrow> uuid \<Rightarrow> GridTool \<Rightarrow> GridTool" where
  "withGrid d u s = s\<lparr>toolStateFor := (toolStateFor s)(currentImageId s \<mapsto> FullLines d), uuidSupply := u\<rparr>"

lemma withGrid_fields [simp]:
  "currentHandle (withGrid d u s) = currentHandle s"
  "currentTool (withGrid d u s) = currentTool s"
  "cfgMoveOneHandleOnly (withGrid d u s) = cfgMoveOneHandleOnly s"
  "noOfPrimaryLinesDefault (withGrid d u s) = noOfPrimaryLinesDefault s"
  "noOfSecondaryLinesDefault (withGrid d u s) = noOfSecondaryLinesDefault s"
  "spacingDefault (withGrid d u s) = spacingDefault s"
  "spacingFor (withGrid d u s) = spacingFor s"
  "showRefinementPointsGlobal (withGrid d u s) = showRefinementPointsGlobal s"
  "showRefinementPointsFor (withGrid d u s) = showRefinementPointsFor s"
  "drawing (withGrid d u s) = drawing s"
  "modifying (withGrid d u s) = modifying s"
  "oldStateManager (withGrid d u s) = oldStateManager s"
  "currentImageId (withGrid d u s) = currentImageId s"
  "uuidSupply (withGrid d u s) = u"
  by (simp_all add: withGrid_def)

lemma withGrid_state [simp]:
  "getToolState (withGrid d u s) = Some (FullLines d)"
  "dataOf (withGrid d u s) = d"
  "noGrid (withGrid d u s) = (d = [])"
  "handlesMissing (withGrid d u s) = False"
  "spacingOf (withGrid d u s) = spacingOf s"
  "totalNoOfPrimaryLines (withGrid d u s) = (if d = [] then None else Some (length d))"
  "showRefinementPointsTruthy (withGrid d u s) = (d \<noteq> [] \<and> showRefinementPointsGlobal s)"
  by (simp_all add: withGrid_def getToolState_def dataOf_def noGrid_def handlesMissing_def
        spacingOf_def totalNoOfPrimaryLines_def showRefinementPointsTruthy_def
        showRefinementPoints_def split: option.splits)

lemma withGrid_withGrid [simp]: "withGrid d' u' (withGrid d u s) = withGrid d' u' s"
  by (simp add: withGrid_def)

lemma setData_withGrid [simp]: "setData d' (withGrid d u s) = withGrid d' u s"
  by (simp add: withGrid_def setData_def)

lemma withGrid_self: "getToolState s = Some (FullLines d) \<Longrightarrow> withGrid d (uuidSupply s) s = s"
  by (auto simp: withGrid_def getToolState_def fun_upd_idem_iff)

lemma withGrid_update [simp]:
  "(withGrid d u s)\<lparr>currentTool := ct\<rparr> = withGrid d u (s\<lparr>currentTool := ct\<rparr>)"
  "(withGrid d u s)\<lparr>currentHandle := ch\<rparr> = withGrid d u (s\<lparr>currentHandle := ch\<rparr>)"
  "(withGrid d u s)\<lparr>drawing := dr\<rparr> = withGrid d u (s\<lparr>drawing := dr\<rparr>)"
  "(withGrid d u s)\<lparr>modifying := mo\<rparr> = withGrid d u (s\<lparr>modifying := mo\<rparr>)"
  "(withGrid d u s)\<lparr>showRefinementPointsGlobal := g\<rparr> = withGrid d u (s\<lparr>showRefinementPointsGlobal := g\<rparr>)"
  "(withGrid d u s)\<lparr>showRefinementPointsFor := f\<rparr> = withGrid d u (s\<lparr>showRefinementPointsFor := f\<rparr>)"
  "(withGrid d u s)\<lparr>spacingFor := sf\<rparr> = withGrid d u (s\<lparr>spacingFor := sf\<rparr>)"
  by (simp_all add: withGrid_def)

lemma addNewMeasurementToState_withGrid [simp]:
  "addNewMeasurementToState (Some i) (withGrid d u s) =
     withGrid (splice i (createNewMeasurement u) d) (Suc u) s"
  "addNewMeasurementToState None (withGrid d u s) =
     withGrid (d @ [createNewMeasurement u]) (Suc u) s"
  by (simp_all add: addNewMeasurementToState_def uuidv4_def withGrid_def setData_def dataOf_def
        getToolState_def Let_def)

text \<open>The points pushed by a list of \<^verbatim>\<open>addPoint\<close> calls.\<close>

definition pushPoint :: "linePoint \<Rightarrow> primaryLine list \<Rightarrow> primaryLine list" where
  "pushPoint p d = d[primaryLineIdx p := (d ! primaryLineIdx p)\<lparr>points := points (d ! primaryLineIdx p) @
                     [FreehandHandleData (x p) (y p) (isCommonPoint p)]\<rparr>]"

lemma addPoint_withGrid:
  "primaryLineIdx p < length d \<Longrightarrow> addPoint p (withGrid d u s) = Inr (withGrid (pushPoint p d) u s)"
  by (simp add: addPoint_def pushPoint_def Let_def)

lemma length_pushPoint [simp]: "length (pushPoint p d) = length d"
  by (simp add: pushPoint_def)

lemma length_fold_pushPoint [simp]: "length (fold pushPoint pts d) = length d"
  by (induction pts arbitrary: d) simp_all

lemma forEach_addPoint:
  "\<forall>p \<in> set pts. primaryLineIdx p < length d \<Longrightarrow>
   forEach addPoint pts (withGrid d u s) = Inr (withGrid (fold pushPoint pts d) u s)"
  by (induction pts arbitrary: d) (simp_all add: addPoint_withGrid)

definition handleOf :: "linePoint \<Rightarrow> point" where
  "handleOf p = FreehandHandleData (x p) (y p) (isCommonPoint p)"

lemma fold_pushPoint_nth:
  "i < length d \<Longrightarrow>
   fold pushPoint pts d ! i =
     (d ! i)\<lparr>points := points (d ! i) @ map handleOf (filter (\<lambda>p. primaryLineIdx p = i) pts)\<rparr>"
proof (induction pts arbitrary: d)
  case Nil
  then show ?case by simp
next
  case (Cons p pts)
  then show ?case
    by (cases "primaryLineIdx p = i") (simp_all add: pushPoint_def handleOf_def)
qed

lemma fold_pushPoint_same_line:
  "\<forall>p \<in> set pts. primaryLineIdx p = i \<Longrightarrow> i < length d \<Longrightarrow>
   fold pushPoint pts d = d[i := (d ! i)\<lparr>points := points (d ! i) @ map handleOf pts\<rparr>]"
proof (induction pts arbitrary: d)
  case Nil
  then show ?case by simp
next
  case (Cons p pts)
  then show ?case by (simp add: pushPoint_def handleOf_def)
qed

lemma collect_total:
  "\<forall>a \<in> set as. f a = Inr (g a) \<Longrightarrow> collect f as = Inr (List.map_filter g as)"
  by (induction as) (simp_all add: List.map_filter_simps split: option.splits)

lemma map_filter_map_Pair:
  "List.map_filter g (map (Pair k) js) = List.map_filter (\<lambda>j. g (k, j)) js"
  by (induction js) (simp_all add: List.map_filter_simps split: option.splits)

lemma map_filter_app:
  "List.map_filter g (xs @ ys) = List.map_filter g xs @ List.map_filter g ys"
  by (simp add: List.map_filter_def)

lemma map_filter_if:
  "List.map_filter (\<lambda>j. if P j then Some (h j) else None) js = map h (filter P js)"
  by (induction js) (simp_all add: List.map_filter_simps)

definition quarterBetween :: "point \<Rightarrow> point \<Rightarrow> nat \<Rightarrow> linePoint" where
  "quarterBetween p q k =
     \<lparr>x = x p + ((x q - x p) / 4) * (real k + 1), y = y p + ((y q - y p) / 4) * (real k + 1),
      isCommonPoint = False, primaryLineIdx = 0\<rparr>"

definition subsidiaryLine :: "uuid \<Rightarrow> primaryLine \<Rightarrow> primaryLine \<Rightarrow> nat \<Rightarrow> primaryLine" where
  "subsidiaryLine u a b k =
     \<lparr>uuid = u, active = False, highlight = None,
      points = map (\<lambda>j. handleOf (quarterBetween (points a ! j) (points b ! j) k))
                 (filter (\<lambda>j. isCommonPoint (points a ! j)) [0..<length (points a)])\<rparr>"

lemma getNextMainPrimaryLine_adjacent:
  "firstIsCommon b = Some True \<Longrightarrow>
   getNextMainPrimaryLine (pre @ a # b # post) (length pre) = Inr (Some (Suc (length pre)))"
  by (simp add: getNextMainPrimaryLine_def)

lemma subsidiaryPoint_between:
  assumes "j < length (points a)" "length (points a) \<le> length (points b)"
    "firstIsCommon b = Some True"
  shows "subsidiaryPoint (pre @ a # b # post) (length pre) (k, j) =
     Inr (if isCommonPoint (points a ! j)
          then Some ((quarterBetween (points a ! j) (points b ! j) k)\<lparr>primaryLineIdx := length pre + k + 1\<rparr>)
          else None)"
  using assms
  by (simp add: subsidiaryPoint_def elemAt_def Let_def getNextMainPrimaryLine_adjacent
        nth_append quarterBetween_def)

lemma generateSubsidiaryPrimaryLine_between:
  assumes "length (points (hd (pre @ [a]))) = length (points a)"
    and "length (points a) \<le> length (points b)"
    and "firstIsCommon b = Some True"
  shows "generateSubsidiaryPrimaryLine (int (length pre)) None True (withGrid (pre @ a # b # post) u s) =
     Inr (withGrid (pre @ a # subsidiaryLine u a b 0 # subsidiaryLine (Suc u) a b 1 #
                      subsidiaryLine (Suc (Suc u)) a b 2 # b # post) (Suc (Suc (Suc u))) s)"
proof -
  let ?d = "pre @ a # b # post"
  let ?T = "length (points a)"
  let ?g = "\<lambda>kj. if isCommonPoint (points a ! snd kj)
          then Some ((quarterBetween (points a ! snd kj) (points b ! snd kj) (fst kj))\<lparr>primaryLineIdx := length pre + fst kj + 1\<rparr>)
          else None"
  have T: "totalNoOfSecondaryLinesOf ?d = ?T"
    using assms(1) by (cases pre) (simp_all add: totalNoOfSecondaryLinesOf_def)
  have "\<forall>kj \<in> set (List.product [0..<3] [0..<?T]). subsidiaryPoint ?d (length pre) kj = Inr (?g kj)"
    using subsidiaryPoint_between[OF _ assms(2,3)] by auto
  from collect_total[OF this]
  have col: "collect (subsidiaryPoint ?d (length pre)) (List.product [0..<3] [0..<?T])
       = Inr (List.map_filter ?g (List.product [0..<3] [0..<?T]))" .
  let ?blk = "\<lambda>k. map (\<lambda>j. (quarterBetween (points a ! j) (points b ! j) k)\<lparr>primaryLineIdx := length pre + k + 1\<rparr>)
                 (filter (\<lambda>j. isCommonPoint (points a ! j)) [0..<?T])"
  have three: "[0..<3] = [0, 1, 2]" by (simp add: upt_rec)
  have pts: "List.map_filter ?g (List.product [0..<3] [0..<?T]) = ?blk 0 @ ?blk 1 @ ?blk 2"
    by (simp add: three map_filter_app map_filter_map_Pair map_filter_if filter_map comp_def)
  let ?E = "pre @ a # createNewMeasurement u # createNewMeasurement (Suc u) #
              createNewMeasurement (Suc (Suc u)) # b # post"
  have ins: "splice (nat (int (length pre) + 3)) (createNewMeasurement (Suc (Suc u)))
          (splice (nat (int (length pre) + 2)) (createNewMeasurement (Suc u))
            (splice (nat (int (length pre) + 1)) (createNewMeasurement u) ?d)) = ?E"
    by (simp add: splice_def nat_add_distrib)
  have idx: "\<forall>p \<in> set (?blk 0 @ ?blk 1 @ ?blk 2). primaryLineIdx p < length ?E"
    by auto
  have hq: "map handleOf (?blk k) = points (subsidiaryLine u' a b k)" for k u'
    by (simp add: subsidiaryLine_def handleOf_def comp_def)
  have p0: "fold pushPoint (?blk 0) ?E =
      pre @ a # subsidiaryLine u a b 0 # createNewMeasurement (Suc u) #
              createNewMeasurement (Suc (Suc u)) # b # post"
    by (subst fold_pushPoint_same_line[where i = "Suc (length pre)"])
       (simp_all add: list_update_append nth_append comp_def handleOf_def createNewMeasurement_def subsidiaryLine_def)
  have p1: "fold pushPoint (?blk 1) (pre @ a # subsidiaryLine u a b 0 # createNewMeasurement (Suc u) #
              createNewMeasurement (Suc (Suc u)) # b # post) =
      pre @ a # subsidiaryLine u a b 0 # subsidiaryLine (Suc u) a b 1 #
              createNewMeasurement (Suc (Suc u)) # b # post"
    by (subst fold_pushPoint_same_line[where i = "Suc (Suc (length pre))"])
       (simp_all add: list_update_append nth_append comp_def handleOf_def createNewMeasurement_def subsidiaryLine_def)
  have p2: "fold pushPoint (?blk 2) (pre @ a # subsidiaryLine u a b 0 # subsidiaryLine (Suc u) a b 1 #
              createNewMeasurement (Suc (Suc u)) # b # post) =
      pre @ a # subsidiaryLine u a b 0 # subsidiaryLine (Suc u) a b 1 #
              subsidiaryLine (Suc (Suc u)) a b 2 # b # post"
    by (subst fold_pushPoint_same_line[where i = "Suc (Suc (Suc (length pre)))"])
       (simp_all add: list_update_append nth_append comp_def handleOf_def createNewMeasurement_def subsidiaryLine_def)
  have push: "fold pushPoint (?blk 0 @ ?blk 1 @ ?blk 2) ?E =
      pre @ a # subsidiaryLine u a b 0 # subsidiaryLine (Suc u) a b 1 #
                      subsidiaryLine (Suc (Suc u)) a b 2 # b # post"
    by (simp only: fold_append comp_def p0 p1 p2)
  have A: "generateSubsidiaryPrimaryLine (int (length pre)) None True (withGrid ?d u s) =
      forEach addPoint (?blk 0 @ ?blk 1 @ ?blk 2) (withGrid ?E (Suc (Suc (Suc u))) s)"
    unfolding generateSubsidiaryPrimaryLine_def
    by (simp add: T col pts ins Let_def del: fold_append)
  show ?thesis
    unfolding A forEach_addPoint[OF idx] push by simp
qed

fun withSubsidiaries :: "uuid \<Rightarrow> primaryLine list \<Rightarrow> primaryLine list" where
  "withSubsidiaries u (a # b # r) =
     a # subsidiaryLine u a b 0 # subsidiaryLine (Suc u) a b 1 # subsidiaryLine (Suc (Suc u)) a b 2 #
     withSubsidiaries (Suc (Suc (Suc u))) (b # r)"
| "withSubsidiaries u [a] = [a]"
| "withSubsidiaries u [] = []"

definition mainOf :: "nat \<Rightarrow> primaryLine \<Rightarrow> bool" where
  "mainOf T l = (length (points l) = T \<and> firstIsCommon l = Some True)"

lemma generateSubsidiaryPrimaryLines_loop:
  assumes "\<forall>l \<in> set (a # r). mainOf T l"
    and "pre = [] \<or> length (points (hd pre)) = T"
    and "length pre = 4 * k0"
  shows "forEach (\<lambda>call. generateSubsidiaryPrimaryLine (0 + 4 * int call) None True)
           [k0..<k0 + length r] (withGrid (pre @ a # r) u s) =
         Inr (withGrid (pre @ withSubsidiaries u (a # r)) (u + 3 * length r) s)"
  using assms
proof (induction r arbitrary: pre a k0 u)
  case Nil
  then show ?case by simp
next
  case (Cons b r)
  have ab: "mainOf T a" "mainOf T b" using Cons.prems(1) by simp_all
  have c1: "length (points (hd (pre @ [a]))) = length (points a)"
    using Cons.prems(2) ab(1) by (cases pre) (simp_all add: mainOf_def)
  have c2: "length (points a) \<le> length (points b)" using ab by (simp add: mainOf_def)
  have c3: "firstIsCommon b = Some True" using ab by (simp add: mainOf_def)
  have frm: "0 + 4 * int k0 = int (length pre)" using Cons.prems(3) by simp
  let ?pre = "pre @ [a, subsidiaryLine u a b 0, subsidiaryLine (Suc u) a b 1,
                    subsidiaryLine (Suc (Suc u)) a b 2]"
  have first: "generateSubsidiaryPrimaryLine (0 + 4 * int k0) None True (withGrid (pre @ a # b # r) u s)
      = Inr (withGrid (?pre @ b # r) (Suc (Suc (Suc u))) s)"
    unfolding frm generateSubsidiaryPrimaryLine_between[OF c1 c2 c3] by simp
  have p1: "\<forall>l \<in> set (b # r). mainOf T l" using Cons.prems(1) by simp
  have p2: "?pre = [] \<or> length (points (hd ?pre)) = T"
    using Cons.prems(2) ab(1) by (cases pre) (simp_all add: mainOf_def)
  have p3: "length ?pre = 4 * Suc k0" using Cons.prems(3) by simp
  have upt: "[k0..<k0 + length (b # r)] = k0 # [Suc k0..<Suc k0 + length r]"
    by (subst upt_rec) simp
  have ar: "Suc (Suc (Suc (u + 3 * length r))) = u + (3 + 3 * length r)" by simp
  show ?case
    unfolding upt
    using Cons.IH[OF p1 p2 p3, of "Suc (Suc (Suc u))"] first
    by (simp add: ar)
qed

lemma generateSubsidiaryPrimaryLines_unrefined:
  assumes "\<forall>l \<in> set d. mainOf T l" "d \<noteq> []"
  shows "generateSubsidiaryPrimaryLines 0 (int (length d) - 1) True None (withGrid d u s) =
         Inr (withGrid (withSubsidiaries u d) (u + 3 * (length d - 1)) s)"
proof -
  from assms(2) obtain a r where d: "d = a # r" by (cases d) auto
  have n: "nat (int (length d) - 1 - 0) = 0 + length r" using d by simp
  show ?thesis
    unfolding generateSubsidiaryPrimaryLines_def n
    using generateSubsidiaryPrimaryLines_loop[of a r T "[]" 0 u s] assms(1) d
    by simp
qed

section \<open>Refinement points on one line\<close>

definition allCommon :: "point list \<Rightarrow> bool" where
  "allCommon ps = (\<forall>p \<in> set ps. isCommonPoint p)"

lemma ithCommonPointLoop_filter:
  "c < i \<Longrightarrow>
   ithCommonPointLoop ps c i =
     (if nat (i - c - 1) < length (filter isCommonPoint ps)
      then Some (filter isCommonPoint ps ! nat (i - c - 1)) else None)"
proof (induction ps arbitrary: c)
  case Nil
  then show ?case by simp
next
  case (Cons p ps)
  show ?case
  proof (cases "isCommonPoint p")
    case True
    show ?thesis
    proof (cases "c + 1 = i")
      case True
      with \<open>isCommonPoint p\<close> show ?thesis by (simp add: Let_def)
    next
      case False
      with Cons.prems have lt: "c + 1 < i" by simp
      have n: "nat (i - c - 1) = Suc (nat (i - (c + 1) - 1))" using lt by simp
      show ?thesis
        using Cons.IH[OF lt] True False
        by (simp add: Let_def n del: nat_diff_distrib)
    qed
  next
    case False
    with Cons.prems Cons.IH[OF Cons.prems] show ?thesis by (simp add: Let_def)
  qed
qed

lemma getIthCommonPointOnPrimaryLine_nth:
  "key < length d \<Longrightarrow>
   getIthCommonPointOnPrimaryLine d i (Some key) =
     (if i < length (filter isCommonPoint (points (d ! key)))
      then Some (filter isCommonPoint (points (d ! key)) ! i) else None)"
  by (simp add: getIthCommonPointOnPrimaryLine_def elemAt_def ithCommonPointLoop_filter)

text \<open>The three refinement points between two common points.\<close>

definition refinementPoints :: "point \<Rightarrow> point \<Rightarrow> point list" where
  "refinementPoints p q =
     [FreehandHandleData (x p + (x q - x p) / 4) (y p + (y q - y p) / 4) False,
      FreehandHandleData (x p + (x q - x p) / 4 * 2) (y p + (y q - y p) / 4 * 2) False,
      FreehandHandleData (x p + (x q - x p) / 4 * 3) (y p + (y q - y p) / 4 * 3) False]"

fun refinedPoints :: "point list \<Rightarrow> point list" where
  "refinedPoints (p # q # r) = p # refinementPoints p q @ refinedPoints (q # r)"
| "refinedPoints r = r"

lemma length_refinedPoints: "ps \<noteq> [] \<Longrightarrow> length (refinedPoints ps) = 4 * (length ps - 1) + 1"
  by (induction ps rule: refinedPoints.induct) (simp_all add: refinementPoints_def)

lemma refinedPoints_snoc:
  "refinedPoints (g @ [p, q]) = refinedPoints (g @ [p]) @ refinementPoints p q @ [q]"
  by (induction g rule: refinedPoints.induct) simp_all

lemma filter_refinedPoints: "allCommon ps \<Longrightarrow> filter isCommonPoint (refinedPoints ps) = ps"
  by (induction ps rule: refinedPoints.induct)
     (simp_all add: allCommon_def refinementPoints_def FreehandHandleData_def)

lemma hd_refinedPoints: "hd (refinedPoints ps) = hd ps"
  by (induction ps rule: refinedPoints.induct) simp_all

definition gapEntries :: "point list \<Rightarrow> nat \<Rightarrow> (nat \<times> point) list" where
  "gapEntries f i = zip [i * 4 + 1, i * 4 + 2, i * 4 + 3] (refinementPoints (f ! i) (f ! Suc i))"

lemma pointsToAdd_gaps:
  assumes "key < length d" "filter isCommonPoint (points (d ! key)) = f"
  shows "k < length f \<Longrightarrow> length f \<le> Suc n \<Longrightarrow>
         pointsToAdd d key [k..<n] = concat (map (gapEntries f) [k..<length f - 1])"
proof (induction "length f - 1 - k" arbitrary: k)
  case 0
  then have k: "k = length f - 1" by simp
  show ?case
  proof (cases "k < n")
    case True
    then have "[k..<n] = k # [Suc k..<n]" by (simp add: upt_conv_Cons)
    then show ?thesis
      using k 0 by (simp add: getIthCommonPointOnPrimaryLine_nth[OF assms(1)] assms(2)
          split: option.splits)
  next
    case False
    then show ?thesis using k by simp
  qed
next
  case (Suc j)
  then have lt: "Suc k < length f" by simp
  then have kn: "k < n" using Suc.prems by simp
  have u1: "[k..<n] = k # [Suc k..<n]" using kn by (simp add: upt_conv_Cons)
  have u2: "[k..<length f - 1] = k # [Suc k..<length f - 1]" using lt by (simp add: upt_conv_Cons)
  have j: "j = length f - 1 - Suc k" using Suc.hyps(2) by simp
  have IH: "pointsToAdd d key [Suc k..<n] = concat (map (gapEntries f) [Suc k..<length f - 1])"
    using Suc.hyps(1)[OF j, of ] lt Suc.prems by simp
  show ?case
    unfolding u1 u2
    using lt IH
    by (simp add: getIthCommonPointOnPrimaryLine_nth[OF assms(1)] assms(2) gapEntries_def
        refinementPoints_def Let_def)
qed

lemma splice_at_length: "splice (length xs) v (xs @ ys) = xs @ v # ys"
  by (simp add: splice_def)

lemma fold_gapEntries:
  assumes "Suc k < length f"
  shows "fold (\<lambda>e ps. splice (fst e) (snd e) ps) (gapEntries f k)
           (refinedPoints (take (Suc k) f) @ drop (Suc k) f) =
         refinedPoints (take (Suc (Suc k)) f) @ drop (Suc (Suc k)) f"
proof -
  let ?R = "refinedPoints (take (Suc k) f)"
  have ne: "take (Suc k) f \<noteq> []" using assms by auto
  have len: "length ?R = k * 4 + 1"
    using length_refinedPoints[OF ne] assms by simp
  have dr: "drop (Suc k) f = f ! Suc k # drop (Suc (Suc k)) f"
    using assms by (simp add: Cons_nth_drop_Suc)
  have t1: "take (Suc k) f = take k f @ [f ! k]"
    using assms by (simp add: take_Suc_conv_app_nth)
  have t2: "take (Suc (Suc k)) f = take k f @ [f ! k, f ! Suc k]"
    using assms by (simp add: take_Suc_conv_app_nth)
  obtain r1 r2 r3 where r: "refinementPoints (f ! k) (f ! Suc k) = [r1, r2, r3]"
    by (simp add: refinementPoints_def)
  have "fold (\<lambda>e ps. splice (fst e) (snd e) ps) (gapEntries f k) (?R @ drop (Suc k) f)
        = ?R @ r1 # r2 # r3 # f ! Suc k # drop (Suc (Suc k)) f"
    unfolding gapEntries_def r dr by (simp add: splice_def len)
  also have "\<dots> = refinedPoints (take (Suc (Suc k)) f) @ drop (Suc (Suc k)) f"
    unfolding t2 refinedPoints_snoc r t1 by simp
  finally show ?thesis .
qed

lemma fold_all_gapEntries:
  "k < length f \<Longrightarrow>
   fold (\<lambda>e ps. splice (fst e) (snd e) ps) (concat (map (gapEntries f) [k..<length f - 1]))
     (refinedPoints (take (Suc k) f) @ drop (Suc k) f) = refinedPoints f"
proof (induction "length f - 1 - k" arbitrary: k)
  case 0
  then have "k = length f - 1" by simp
  with 0 show ?case by simp
next
  case (Suc j)
  then have lt: "Suc k < length f" by simp
  have u: "[k..<length f - 1] = k # [Suc k..<length f - 1]" using lt by (simp add: upt_conv_Cons)
  have j: "j = length f - 1 - Suc k" using Suc.hyps(2) by simp
  show ?case
    unfolding u
    using Suc.hyps(1)[OF j lt] fold_gapEntries[OF lt]
    by simp
qed

definition refineLine :: "primaryLine \<Rightarrow> primaryLine" where
  "refineLine l = l\<lparr>points := refinedPoints (points l)\<rparr>"

text \<open>What the refinement of one line does, when that line holds the refined points of its
  first \<open>k + 1\<close> common points followed by its other common points.\<close>

lemma insertRefinementPoints_line:
  assumes "key < length d" "allCommon f" "k < length f"
    and "points (d ! key) = refinedPoints (take (Suc k) f) @ drop (Suc k) f"
    and "length f \<le> Suc (noOfSecondaryLinesOf d)"
  shows "insertRefinementPoints (Some k) key d = d[key := (d ! key)\<lparr>points := refinedPoints f\<rparr>]"
proof -
  have ac: "allCommon (take (Suc k) f)" "allCommon (drop (Suc k) f)"
    using assms(2) by (auto simp: allCommon_def dest: in_set_takeD in_set_dropD)
  have fl: "filter isCommonPoint (points (d ! key)) = f"
    unfolding assms(4) using ac
    by (simp add: filter_refinedPoints) (simp add: allCommon_def)
  define E where "E = concat (map (gapEntries f) [k..<length f - 1])"
  have e: "pointsToAdd d key [k..<noOfSecondaryLinesOf d] = E"
    unfolding E_def using pointsToAdd_gaps[OF assms(1) fl assms(3,5)] .
  have fe: "fold (\<lambda>e ps. splice (fst e) (snd e) ps) E (points (d ! key)) = refinedPoints f"
    unfolding E_def assms(4) using fold_all_gapEntries[OF assms(3)] .
  show ?thesis
  proof (cases "E = []")
    case True
    with fe have "refinedPoints f = points (d ! key)" by simp
    then show ?thesis
      using True e assms(1) by (simp add: insertRefinementPoints_def Let_def list_update_same_conv)
  next
    case False
    then show ?thesis
      using e fe by (simp add: insertRefinementPoints_def Let_def)
  qed
qed

section \<open>Enabling refinement\<close>

fun refinedGrid :: "uuid \<Rightarrow> primaryLine list \<Rightarrow> primaryLine list" where
  "refinedGrid u (a # b # r) =
     refineLine a # subsidiaryLine u a b 0 # subsidiaryLine (Suc u) a b 1 #
     subsidiaryLine (Suc (Suc u)) a b 2 # refinedGrid (Suc (Suc (Suc u))) (b # r)"
| "refinedGrid u [a] = [refineLine a]"
| "refinedGrid u [] = []"

definition commonLine :: "nat \<Rightarrow> primaryLine \<Rightarrow> bool" where
  "commonLine T l = (allCommon (points l) \<and> length (points l) = T)"

lemma commonLine_mainOf: "0 < T \<Longrightarrow> commonLine T l \<Longrightarrow> mainOf T l"
  by (cases "points l") (auto simp: commonLine_def mainOf_def firstIsCommon_def allCommon_def)

lemma refinedPoints_take1: "f \<noteq> [] \<Longrightarrow> refinedPoints (take (Suc 0) f) @ drop (Suc 0) f = f"
  by (cases f) simp_all

lemma insertRefinementPoints_commonLine:
  assumes "key < length d" "commonLine T (d ! key)" "0 < T"
    and "noOfSecondaryLinesOf d = T"
  shows "insertRefinementPoints (Some 0) key d = d[key := refineLine (d ! key)]"
proof -
  have ne: "points (d ! key) \<noteq> []" using assms(2,3) by (auto simp: commonLine_def)
  show ?thesis
    unfolding refineLine_def
    by (rule insertRefinementPoints_line[where f = "points (d ! key)"])
       (use assms ne in \<open>simp_all add: commonLine_def refinedPoints_take1\<close>)
qed

lemma commonCount_refineLine:
  "commonLine T l \<Longrightarrow> length (filter isCommonPoint (points (refineLine l))) = T"
  by (simp add: refineLine_def commonLine_def filter_refinedPoints)

lemma commonCount_commonLine:
  "commonLine T l \<Longrightarrow> length (filter isCommonPoint (points l)) = T"
  by (simp add: commonLine_def allCommon_def)

lemma refine_fold:
  assumes "\<forall>l \<in> set d. commonLine T l" "0 < T"
    and "pre = [] \<or> length (filter isCommonPoint (points (hd pre))) = T"
  shows "fold (insertRefinementPoints (Some 0)) (map (\<lambda>i. length pre + 4 * i) [0..<length d])
           (pre @ withSubsidiaries u d) = pre @ refinedGrid u d"
  using assms
proof (induction u d arbitrary: pre rule: withSubsidiaries.induct)
  case (1 u a b r)
  let ?D = "pre @ withSubsidiaries u (a # b # r)"
  have a: "commonLine T a" using "1.prems"(1) by simp
  have n: "noOfSecondaryLinesOf ?D = T"
    using "1.prems"(3) a by (cases pre) (simp_all add: noOfSecondaryLinesOf_def commonCount_commonLine)
  have keys: "map (\<lambda>i. length pre + 4 * i) [0..<length (a # b # r)] =
       length pre # map (\<lambda>i. length (pre @ [refineLine a, subsidiaryLine u a b 0,
            subsidiaryLine (Suc u) a b 1, subsidiaryLine (Suc (Suc u)) a b 2]) + 4 * i) [0..<length (b # r)]"
    by (simp add: upt_conv_Cons map_Suc_upt[symmetric] del: upt_Suc)
  have step: "insertRefinementPoints (Some 0) (length pre) ?D =
      (pre @ [refineLine a, subsidiaryLine u a b 0,
            subsidiaryLine (Suc u) a b 1, subsidiaryLine (Suc (Suc u)) a b 2]) @
       withSubsidiaries (Suc (Suc (Suc u))) (b # r)"
    by (subst insertRefinementPoints_commonLine[where T = T])
       (use a n "1.prems"(2) in \<open>simp_all add: nth_append\<close>)
  have p3: "pre @ [refineLine a, subsidiaryLine u a b 0,
            subsidiaryLine (Suc u) a b 1, subsidiaryLine (Suc (Suc u)) a b 2] = [] \<or>
        length (filter isCommonPoint (points (hd (pre @ [refineLine a, subsidiaryLine u a b 0,
            subsidiaryLine (Suc u) a b 1, subsidiaryLine (Suc (Suc u)) a b 2])))) = T"
    using "1.prems"(3) a by (cases pre) (simp_all add: commonCount_refineLine)
  have p1: "\<forall>l \<in> set (b # r). commonLine T l" using "1.prems"(1) by simp
  show ?case
    unfolding keys
    using "1.IH"[OF p1 "1.prems"(2) p3] step
    by simp
next
  case (3 u)
  then show ?case by simp
next
  case (2 u v)
  let ?D = "pre @ [v]"
  have a: "commonLine T v" using "2.prems"(1) by simp
  have n: "noOfSecondaryLinesOf ?D = T"
    using "2.prems"(3) a by (cases pre) (simp_all add: noOfSecondaryLinesOf_def commonCount_commonLine)
  show ?case
    using insertRefinementPoints_commonLine[of "length pre" ?D T] a n "2.prems"(2)
    by simp
qed

lemma scanNextMain_total:
  "\<forall>l \<in> set ls. points l \<noteq> [] \<Longrightarrow> \<exists>r. scanNextMain ls i = Inr r"
proof (induction ls arbitrary: i)
  case Nil
  then show ?case by simp
next
  case (Cons l ls)
  then obtain p ps where "points l = p # ps" by (cases "points l") auto
  with Cons show ?case by (cases "isCommonPoint p") (simp_all add: firstIsCommon_def)
qed

lemma getNextMainPrimaryLine_total:
  "\<forall>l \<in> set d. points l \<noteq> [] \<Longrightarrow> \<exists>r. getNextMainPrimaryLine d k = Inr r"
  unfolding getNextMainPrimaryLine_def
  using scanNextMain_total[of "drop (Suc k) d" "Suc k"]
  by (auto dest: in_set_dropD)

lemma allMainPrimaryLinesAfter_total:
  "\<forall>l \<in> set d. points l \<noteq> [] \<Longrightarrow> \<exists>ks. allMainPrimaryLinesAfter d k = Inr ks"
proof (induction d k rule: allMainPrimaryLinesAfter.induct)
  case (1 d k)
  from getNextMainPrimaryLine_total[OF "1.prems", of k] obtain r where
    r: "getNextMainPrimaryLine d k = Inr r" by blast
  show ?case
  proof (cases r)
    case None
    with r show ?thesis by (subst allMainPrimaryLinesAfter.simps) simp
  next
    case (Some j)
    with "1.IH"[of r j] r "1.prems" obtain ks where "allMainPrimaryLinesAfter d j = Inr ks" by auto
    with r Some show ?thesis by (subst allMainPrimaryLinesAfter.simps) simp
  qed
qed

lemma getAllMainPrimaryLines_total:
  "\<forall>l \<in> set d. points l \<noteq> [] \<Longrightarrow> \<exists>ks. getAllMainPrimaryLines d fr = Inr ks"
  unfolding getAllMainPrimaryLines_def
  using allMainPrimaryLinesAfter_total[of d "case fr of None \<Rightarrow> 0 | Some k \<Rightarrow> k"]
  by auto

lemma points_subsidiaryLine_ne:
  "mainOf T a \<Longrightarrow> points (subsidiaryLine u a b k) \<noteq> []"
  by (cases "points a") (auto simp: mainOf_def firstIsCommon_def subsidiaryLine_def upt_conv_Cons)

lemma firstIsCommon_subsidiaryLine:
  "mainOf T a \<Longrightarrow> firstIsCommon (subsidiaryLine u a b k) = Some False"
  by (cases "points a")
     (auto simp: mainOf_def firstIsCommon_def subsidiaryLine_def upt_conv_Cons handleOf_def
        quarterBetween_def FreehandHandleData_def)

lemma withSubsidiaries_points_ne:
  "\<forall>l \<in> set d. mainOf T l \<Longrightarrow> \<forall>l \<in> set (withSubsidiaries u d). points l \<noteq> []"
proof (induction u d rule: withSubsidiaries.induct)
  case (1 u a b r)
  then show ?case by (auto simp: points_subsidiaryLine_ne) (auto simp: mainOf_def firstIsCommon_def)
next
  case (3 u)
  then show ?case by simp
next
  case (2 u v)
  then show ?case by (auto simp: mainOf_def firstIsCommon_def)
qed

lemma noOfPrimaryLinesOf_count:
  "\<forall>l \<in> set d. points l \<noteq> [] \<Longrightarrow>
   noOfPrimaryLinesOf d = Inr (length (filter (\<lambda>l. firstIsCommon l = Some True) d))"
  by (auto simp: noOfPrimaryLinesOf_def firstIsCommon_def split: list.splits)

lemma mains_withSubsidiaries:
  "\<forall>l \<in> set d. mainOf T l \<Longrightarrow>
   length (filter (\<lambda>l. firstIsCommon l = Some True) (withSubsidiaries u d)) = length d"
proof (induction u d rule: withSubsidiaries.induct)
  case (1 u a b r)
  have a: "mainOf T a" using "1.prems" by simp
  have "firstIsCommon a = Some True" using a by (simp add: mainOf_def)
  then show ?case
    using "1.IH" "1.prems" by (simp add: firstIsCommon_subsidiaryLine[OF a])
next
  case (3 u)
  then show ?case by simp
next
  case (2 u v)
  then show ?case by (simp add: mainOf_def)
qed

lemma generateRefinementPoints_all:
  assumes "\<forall>l \<in> set d. commonLine T l" "0 < T" "d \<noteq> []"
  shows "generateRefinementPointsOnCurrentPrimaryLines (Some 0) (Some 0)
           (withGrid (withSubsidiaries u d) u' s) = Inr (withGrid (refinedGrid u d) u' s)"
proof -
  have m: "\<forall>l \<in> set d. mainOf T l" using assms(1,2) commonLine_mainOf by blast
  have ne: "withSubsidiaries u d \<noteq> []"
    using assms(3) by (induction u d rule: withSubsidiaries.induct) simp_all
  from getAllMainPrimaryLines_total[OF withSubsidiaries_points_ne[OF m], of u None]
  obtain ks where ks: "getAllMainPrimaryLines (withSubsidiaries u d) None = Inr ks" by blast
  have cnt: "noOfPrimaryLinesOf (withSubsidiaries u d) = Inr (length d)"
    using noOfPrimaryLinesOf_count[OF withSubsidiaries_points_ne[OF m], of u]
      mains_withSubsidiaries[OF m, of u] by simp
  have f: "fold (insertRefinementPoints (Some 0)) (map (\<lambda>i. i * 4) [0..<length d])
             (withSubsidiaries u d) = refinedGrid u d"
    using refine_fold[OF assms(1,2), of "[]" u] by (simp add: mult.commute)
  show ?thesis
    unfolding generateRefinementPointsOnCurrentPrimaryLines_def
    using ne ks cnt f by (simp add: Let_def)
qed

text \<open>Enabling refinement on an un-refined grid.\<close>

lemma enable_refinement:
  assumes "\<forall>l \<in> set d. commonLine T l" "0 < T" "d \<noteq> []"
    and "showRefinementPointsFor s (currentImageId s) \<noteq> Some True"
  shows "set_showRefinementPoints (JSBoolean True) (withGrid d u s) =
     Inr (withGrid (refinedGrid u d) (u + 3 * (length d - 1))
            (s\<lparr>showRefinementPointsGlobal := True,
               showRefinementPointsFor := (showRefinementPointsFor s)(currentImageId s \<mapsto> True)\<rparr>))"
proof -
  have m: "\<forall>l \<in> set d. mainOf T l" using assms(1,2) commonLine_mainOf by blast
  show ?thesis
    unfolding set_showRefinementPoints_def
    using assms(3,4)
    by (simp add: andThen_def generateSubsidiaryPrimaryLines_unrefined[OF m assms(3)]
          generateRefinementPoints_all[OF assms(1,2,3)])
qed

section \<open>Disabling refinement\<close>

definition stripLine :: "primaryLine \<Rightarrow> primaryLine" where
  "stripLine l = l\<lparr>points := filter isCommonPoint (points l)\<rparr>"

lemma removeEmptyLinesDownFrom_filter:
  "t < length d \<Longrightarrow>
   removeEmptyLinesDownFrom t d =
     take 1 d @ filter (\<lambda>l. points l \<noteq> []) (take t (tl d)) @ drop (Suc t) d"
proof (induction t arbitrary: d)
  case 0
  then show ?case by (cases d) simp_all
next
  case (Suc t)
  then obtain l ls where d: "d = l # ls" by (cases d) auto
  with Suc.prems have t: "t < length ls" by simp
  have tk: "take (Suc t) ls = take t ls @ [ls ! t]" using t by (simp add: take_Suc_conv_app_nth)
  have dr: "drop t ls = ls ! t # drop (Suc t) ls" using t by (simp add: Cons_nth_drop_Suc)
  show ?case
  proof (cases "points (ls ! t) = []")
    case True
    have len: "t < length (l # take t ls @ drop (Suc t) ls)" using t by simp
    have "removeEmptyLinesDownFrom (Suc t) d =
          removeEmptyLinesDownFrom t (l # take t ls @ drop (Suc t) ls)"
      using True d by simp
    also have "\<dots> = [l] @ filter (\<lambda>l. points l \<noteq> []) (take t (take t ls @ drop (Suc t) ls)) @
                     drop (Suc t) (l # take t ls @ drop (Suc t) ls)"
      using Suc.IH[OF len] by simp
    also have "\<dots> = [l] @ filter (\<lambda>l. points l \<noteq> []) (take t ls) @ drop (Suc t) ls"
      using t by simp
    finally show ?thesis using True d tk by simp
  next
    case False
    have len: "t < length d" using Suc.prems by simp
    have "removeEmptyLinesDownFrom (Suc t) d = removeEmptyLinesDownFrom t d"
      using False d by simp
    also have "\<dots> = [l] @ filter (\<lambda>l. points l \<noteq> []) (take t ls) @ drop t ls"
      using Suc.IH[OF len] d by simp
    finally show ?thesis using False d tk dr by simp
  qed
qed

lemma removeEmptyLines_all:
  "removeEmptyLinesDownFrom (length (l # ls) - 1) (l # ls) = l # filter (\<lambda>l. points l \<noteq> []) ls"
  using removeEmptyLinesDownFrom_filter[of "length ls" "l # ls"] by simp

lemma removeAllRefinementPoints_effect:
  "removeAllRefinementPoints (withGrid (l # ls) u s) =
     Inr (withGrid (stripLine l # filter (\<lambda>l. points l \<noteq> []) (map stripLine ls)) u s)"
proof -
  have m: "map (\<lambda>l. l\<lparr>points := filter isCommonPoint (points l)\<rparr>) (l # ls) =
           stripLine l # map stripLine ls"
    by (simp add: stripLine_def)
  have r: "removeEmptyLinesDownFrom (length (stripLine l # map stripLine ls) - 1)
             (stripLine l # map stripLine ls) =
           stripLine l # filter (\<lambda>l. points l \<noteq> []) (map stripLine ls)"
    by (rule removeEmptyLines_all)
  show ?thesis
    unfolding removeAllRefinementPoints_def withGrid_state Let_def m r by simp
qed

lemma stripLine_refineLine: "allCommon (points l) \<Longrightarrow> stripLine (refineLine l) = l"
  by (simp add: stripLine_def refineLine_def filter_refinedPoints)

lemma stripLine_subsidiaryLine: "points (stripLine (subsidiaryLine u a b k)) = []"
  by (simp add: stripLine_def subsidiaryLine_def handleOf_def quarterBetween_def
        FreehandHandleData_def filter_empty_conv)

lemma strip_refinedGrid:
  assumes "\<forall>l \<in> set d. commonLine T l" "0 < T"
  shows "filter (\<lambda>l. points l \<noteq> []) (map stripLine (refinedGrid u d)) = d"
  using assms(1)
proof (induction u d rule: refinedGrid.induct)
  case (1 u a b r)
  have a: "commonLine T a" using "1.prems" by simp
  then have "points a \<noteq> []" "allCommon (points a)" using assms(2) by (auto simp: commonLine_def)
  then show ?case
    using "1.IH" "1.prems"
    by (simp add: stripLine_refineLine stripLine_subsidiaryLine)
next
  case (3 u)
  then show ?case by simp
next
  case (2 u v)
  then have "points v \<noteq> []" "allCommon (points v)" using assms(2) by (auto simp: commonLine_def)
  then show ?case by (simp add: stripLine_refineLine)
qed

lemma refinedGrid_Cons:
  "d \<noteq> [] \<Longrightarrow> \<exists>ls. refinedGrid u d = refineLine (hd d) # ls"
  by (induction u d rule: refinedGrid.induct) simp_all

lemma disable_refinement_of_refinedGrid:
  assumes "\<forall>l \<in> set d. commonLine T l" "0 < T" "d \<noteq> []"
    and "showRefinementPointsFor s (currentImageId s) \<noteq> Some False"
  shows "set_showRefinementPoints (JSBoolean False) (withGrid (refinedGrid u d) u' s) =
     Inr (withGrid d u'
            (s\<lparr>showRefinementPointsGlobal := False,
               showRefinementPointsFor := (showRefinementPointsFor s)(currentImageId s \<mapsto> False)\<rparr>))"
proof -
  from refinedGrid_Cons[OF assms(3), of u] obtain ls where
    r: "refinedGrid u d = refineLine (hd d) # ls" by blast
  have hdc: "commonLine T (hd d)" using assms(1,3) by simp
  then have hd: "points (hd d) \<noteq> []" "allCommon (points (hd d))" using assms(2)
    by (auto simp: commonLine_def)
  have "filter (\<lambda>l. points l \<noteq> []) (map stripLine (refineLine (hd d) # ls)) = d"
    using strip_refinedGrid[OF assms(1,2), of u] r by simp
  then have "stripLine (refineLine (hd d)) # filter (\<lambda>l. points l \<noteq> []) (map stripLine ls) = d"
    using hd by (simp add: stripLine_refineLine)
  then show ?thesis
    unfolding set_showRefinementPoints_def r
    using assms(4) by (simp add: andThen_def removeAllRefinementPoints_effect)
qed

lemma stripLine_common: "allCommon (points l) \<Longrightarrow> stripLine l = l"
  by (simp add: stripLine_def allCommon_def)

text \<open>
  C4. On an un-refined grid (at least one line, every line with the same positive number of
  points, all of them common), setting \<^verbatim>\<open>showRefinementPoints\<close> to \<^verbatim>\<open>true\<close> and then to \<^verbatim>\<open>false\<close>
  returns both times and leaves exactly the lines it started from: the same lines in the same
  order, each with its uuid and with the same points at the same coordinates, all common.
\<close>

theorem C4_refinement_toggle_restores:
  assumes "getToolState s = Some (FullLines d)" "d \<noteq> []" "0 < T"
    and "\<forall>l \<in> set d. allCommon (points l) \<and> length (points l) = T"
  shows "returns (set_showRefinementPoints (JSBoolean True) s)
     (\<lambda>s1. returns (set_showRefinementPoints (JSBoolean False) s1) (\<lambda>s2. dataOf s2 = d))"
proof -
  have s: "s = withGrid d (uuidSupply s) s" using withGrid_self[OF assms(1)] by simp
  have c: "\<forall>l \<in> set d. commonLine T l" using assms(4) by (simp add: commonLine_def)
  show ?thesis
  proof (cases "showRefinementPointsFor s (currentImageId s) = Some True")
    case True
    obtain l ls where d: "d = l # ls" using assms(2) by (cases d) auto
    have e: "set_showRefinementPoints (JSBoolean True) s = Inr s"
      using True by (simp add: set_showRefinementPoints_def)
    have st: "stripLine l # filter (\<lambda>l. points l \<noteq> []) (map stripLine ls) = d"
    proof -
      have "map stripLine ls = ls" using c d by (simp add: map_idI stripLine_common commonLine_def)
      moreover have "filter (\<lambda>l. points l \<noteq> []) ls = ls"
        using c d assms(3) by (auto simp: commonLine_def filter_id_conv)
      moreover have "stripLine l = l" using c d by (simp add: stripLine_common commonLine_def)
      ultimately show ?thesis using d by simp
    qed
    have "set_showRefinementPoints (JSBoolean False) (withGrid (l # ls) (uuidSupply s) s) =
        Inr (withGrid d (uuidSupply s) (s\<lparr>showRefinementPointsGlobal := False,
               showRefinementPointsFor := (showRefinementPointsFor s)(currentImageId s \<mapsto> False)\<rparr>))"
      unfolding set_showRefinementPoints_def
      using True by (simp add: andThen_def removeAllRefinementPoints_effect st)
    then show ?thesis using e s d by (simp add: returns_def)
  next
    case False
    let ?s1 = "s\<lparr>showRefinementPointsGlobal := True,
               showRefinementPointsFor := (showRefinementPointsFor s)(currentImageId s \<mapsto> True)\<rparr>"
    have e: "set_showRefinementPoints (JSBoolean True) s =
        Inr (withGrid (refinedGrid (uuidSupply s) d) (uuidSupply s + 3 * (length d - 1)) ?s1)"
      using enable_refinement[OF c assms(3,2) False, of "uuidSupply s"] s by simp
    have f: "showRefinementPointsFor ?s1 (currentImageId ?s1) \<noteq> Some False" by simp
    show ?thesis
      unfolding e
      using disable_refinement_of_refinedGrid[OF c assms(3,2) f]
      by (simp add: returns_def)
  qed
qed

theorem C4_refinement_toggle_restores_witness:
  "returns (set_showRefinementPoints (JSBoolean True) grid33)
     (\<lambda>s1. returns (set_showRefinementPoints (JSBoolean False) s1)
            (\<lambda>s2. dataOf s2 = dataOf grid33))"
proof -
  have h1: "getToolState grid33 = Some (FullLines (dataOf grid33))" by code_simp
  have h2: "dataOf grid33 \<noteq> []" by code_simp
  have h3: "(0::nat) < 3" by simp
  have h4: "list_all (\<lambda>l. list_all isCommonPoint (points l) \<and> length (points l) = 3) (dataOf grid33)"
    by code_simp
  have h5: "\<forall>l \<in> set (dataOf grid33). allCommon (points l) \<and> length (points l) = 3"
    using h4 by (simp add: list_all_iff allCommon_def)
  from C4_refinement_toggle_restores[OF h1 h2 h3 h5] show ?thesis .
qed

text \<open>The flags of a refined grid of \<open>N\<close> main lines with \<open>n\<close> common points each.\<close>

definition mainFlags :: "nat \<Rightarrow> bool list" where
  "mainFlags n = map (\<lambda>j. j mod 4 = 0) [0..<4 * (n - 1) + 1]"

definition refinedFlags :: "nat \<Rightarrow> nat \<Rightarrow> bool list list" where
  "refinedFlags N n =
     map (\<lambda>i. if i mod 4 = 0 then mainFlags n else replicate n False) [0..<4 * (N - 1) + 1]"

definition unrefinedFlags :: "nat \<Rightarrow> nat \<Rightarrow> bool list list" where
  "unrefinedFlags N n = replicate N (replicate n True)"

lemma length_mainFlags [simp]: "length (mainFlags n) = Suc (4 * (n - 1))"
  by (simp add: mainFlags_def)

lemma length_refinedFlags [simp]: "length (refinedFlags N n) = Suc (4 * (N - 1))"
  by (simp add: refinedFlags_def)

lemma nth_mainFlags: "j < Suc (4 * (n - 1)) \<Longrightarrow> mainFlags n ! j = (j mod 4 = 0)"
  unfolding mainFlags_def by (simp del: upt_Suc)

lemma nth_refinedFlags:
  "i < Suc (4 * (N - 1)) \<Longrightarrow>
   refinedFlags N n ! i = (if i mod 4 = 0 then mainFlags n else replicate n False)"
  unfolding refinedFlags_def by (simp del: upt_Suc)

lemma mainFlags_1 [simp]: "mainFlags (Suc 0) = [True]"
  by (simp add: mainFlags_def)

lemma refinedFlags_1 [simp]: "refinedFlags (Suc 0) n = [mainFlags n]"
  by (simp add: refinedFlags_def)

lemma below_four: "i < (4::nat) \<Longrightarrow> i = 0 \<or> i = 1 \<or> i = 2 \<or> i = 3"
  by arith

lemma snoc_four_nth:
  assumes "length xs = Suc (4 * k)" "length ys = Suc (4 * Suc k)"
    and "\<And>i. i < Suc (4 * k) \<Longrightarrow> ys ! i = xs ! i"
    and "ys ! (4 * k + 1) = a" "ys ! (4 * k + 2) = b" "ys ! (4 * k + 3) = c" "ys ! (4 * k + 4) = d"
  shows "ys = xs @ [a, b, c, d]"
proof (rule nth_equalityI)
  show "length ys = length (xs @ [a, b, c, d])" using assms(1,2) by simp
next
  fix i assume "i < length ys"
  then have i: "i < Suc (4 * Suc k)" using assms(2) by simp
  show "ys ! i = (xs @ [a, b, c, d]) ! i"
  proof (cases "i < Suc (4 * k)")
    case True
    then show ?thesis using assms(1,3) by (simp add: nth_append)
  next
    case False
    then have "i - Suc (4 * k) < 4" using i by simp
    from below_four[OF this] False
    have "i = 4 * k + 1 \<or> i = 4 * k + 2 \<or> i = 4 * k + 3 \<or> i = 4 * k + 4" by arith
    then show ?thesis
      using assms(1,4,5,6,7) by (auto simp add: nth_append)
  qed
qed

lemma cons_four_nth:
  assumes "length xs = Suc (4 * k)" "length ys = Suc (4 * Suc k)"
    and "\<And>i. i < Suc (4 * k) \<Longrightarrow> ys ! (i + 4) = xs ! i"
    and "ys ! 0 = a" "ys ! 1 = b" "ys ! 2 = c" "ys ! 3 = d"
  shows "ys = a # b # c # d # xs"
proof (rule nth_equalityI)
  show "length ys = length (a # b # c # d # xs)" using assms(1,2) by simp
next
  fix i assume "i < length ys"
  then have i: "i < Suc (4 * Suc k)" using assms(2) by simp
  show "ys ! i = (a # b # c # d # xs) ! i"
  proof (cases "i < 4")
    case True
    from below_four[OF this] show ?thesis
      using assms(4,5,6,7) by (auto simp add: numeral_2_eq_2 numeral_3_eq_3)
  next
    case False
    then obtain j where j: "i = j + 4" by (metis le_add_diff_inverse2 not_less)
    then have "j < Suc (4 * k)" using i by simp
    from assms(3)[OF this] show ?thesis unfolding j
      by (simp add: numeral_Bit0 numeral_3_eq_3 numeral_2_eq_2)
  qed
qed

lemma four_mods:
  "(4 * k + 1) mod 4 \<noteq> (0::nat)" "(4 * k + 2) mod 4 \<noteq> (0::nat)"
  "(4 * k + 3) mod 4 \<noteq> (0::nat)" "(4 * k + 4) mod 4 = (0::nat)" "(i + 4) mod 4 = i mod (4::nat)"
  "Suc (4 * k) mod 4 \<noteq> 0" "Suc (Suc (4 * k)) mod 4 \<noteq> 0" "Suc (Suc (Suc (4 * k))) mod 4 \<noteq> 0"
  "0 < Suc (4 * k) mod 4" "0 < Suc (Suc (4 * k)) mod 4" "0 < Suc (Suc (Suc (4 * k))) mod 4"
  "(4 * k) mod 4 = (0::nat)"
  by presburger+

lemma mainFlags_snoc: "mainFlags (Suc (Suc n)) = mainFlags (Suc n) @ [False, False, False, True]"
  by (rule snoc_four_nth[where k = n]) (simp_all add: nth_mainFlags four_mods)

lemma refinedFlags_snoc:
  "refinedFlags (Suc (Suc N)) n =
     refinedFlags (Suc N) n @ [replicate n False, replicate n False, replicate n False, mainFlags n]"
  by (rule snoc_four_nth[where k = N]) (simp_all add: nth_refinedFlags four_mods)

lemma mainFlags_cons: "mainFlags (Suc (Suc n)) = True # False # False # False # mainFlags (Suc n)"
  by (rule cons_four_nth[where k = n]) (simp_all add: nth_mainFlags four_mods)

lemma refinedFlags_cons:
  "refinedFlags (Suc (Suc N)) n =
     mainFlags n # replicate n False # replicate n False # replicate n False # refinedFlags (Suc N) n"
  by (rule cons_four_nth[where k = N]) (simp_all add: nth_refinedFlags four_mods)

lemma filter_mainFlags: "0 < n \<Longrightarrow> filter id (mainFlags n) = replicate n True"
proof (induction n)
  case 0
  then show ?case by simp
next
  case (Suc n)
  show ?case
  proof (cases n)
    case 0
    then show ?thesis by simp
  next
    case (Suc m)
    with Suc.IH show ?thesis by (simp add: mainFlags_snoc replicate_append_same)
  qed
qed

lemma take_refinedFlags:
  "k < N \<Longrightarrow> take (Suc (4 * (N - 1)) - 4 * k) (refinedFlags N n) = refinedFlags (N - k) n"
  by (rule nth_equalityI) (auto simp add: nth_refinedFlags)

lemma take_mainFlags:
  "k < n \<Longrightarrow> take (Suc (4 * (n - 1)) - 4 * k) (mainFlags n) = mainFlags (n - k)"
  by (rule nth_equalityI) (auto simp add: nth_mainFlags)

section \<open>Uuids and flags under the simple edits\<close>

lemma map_update_same:
  "k < length d \<Longrightarrow> f l = f (d ! k) \<Longrightarrow> map f (d[k := l]) = map f d"
  by (simp add: list_eq_iff_nth_eq nth_list_update)

text \<open>What \<^verbatim>\<open>_endDrawing\<close> does to the lines.\<close>

definition deactivate :: "int \<Rightarrow> primaryLine list \<Rightarrow> primaryLine list" where
  "deactivate i d =
     (if i \<noteq> - 1
      then (case elemAt d i of None \<Rightarrow> d
            | Some l \<Rightarrow> d[nat i := l\<lparr>active := False, highlight := Some False\<rparr>])
      else d)"

lemma deactivate_keeps [simp]:
  "map uuid (deactivate i d) = map uuid d"
  "commonFlags (deactivate i d) = commonFlags d"
  "length (deactivate i d) = length d"
  by (auto simp add: deactivate_def elemAt_def commonFlags_def map_update_same split: option.splits)

definition sessionEnded :: "GridTool \<Rightarrow> GridTool" where
  "sessionEnded s = s\<lparr>modifying := False, currentHandle := 0, currentTool := 0, drawing := False\<rparr>"

lemma endDrawing_withGrid:
  "endDrawing (withGrid d u s) = Inr (withGrid (deactivate (currentTool s) d) u (sessionEnded s))"
  by (simp add: endDrawing_def deactivate_def sessionEnded_def Let_def split: option.splits)

lemma completeDrawing_withGrid:
  "drawing s \<Longrightarrow>
   completeDrawing (withGrid d u s) = Inr (withGrid (deactivate (currentTool s) d) u (sessionEnded s))"
  by (simp add: completeDrawing_def endDrawing_withGrid)

definition sessionStarted :: "nat \<Rightarrow> GridTool \<Rightarrow> GridTool" where
  "sessionStarted n s = s\<lparr>drawing := True, currentTool := int n - 1\<rparr>"

lemma activateDraw_withGrid:
  "d \<noteq> [] \<Longrightarrow> activateDraw (withGrid d u s) = withGrid d u (sessionStarted (length d) s)"
  by (simp add: activateDraw_def sessionStarted_def)

lemma sessionStarted_fields [simp]:
  "drawing (sessionStarted n s)"
  "currentTool (sessionStarted n s) = int n - 1"
  "showRefinementPointsGlobal (sessionStarted n s) = showRefinementPointsGlobal s"
  "showRefinementPointsFor (sessionStarted n s) = showRefinementPointsFor s"
  "currentImageId (sessionStarted n s) = currentImageId s"
  "spacingOf (sessionStarted n s) = spacingOf s"
  "noOfSecondaryLinesDefault (sessionStarted n s) = noOfSecondaryLinesDefault s"
  by (simp_all add: sessionStarted_def spacingOf_def split: option.splits)

lemma sessionEnded_fields [simp]:
  "\<not> drawing (sessionEnded s)"
  "currentTool (sessionEnded s) = 0"
  "currentHandle (sessionEnded s) = 0"
  "showRefinementPointsGlobal (sessionEnded s) = showRefinementPointsGlobal s"
  "showRefinementPointsFor (sessionEnded s) = showRefinementPointsFor s"
  "currentImageId (sessionEnded s) = currentImageId s"
  "spacingOf (sessionEnded s) = spacingOf s"
  "noOfSecondaryLinesDefault (sessionEnded s) = noOfSecondaryLinesDefault s"
  by (simp_all add: sessionEnded_def spacingOf_def split: option.splits)

text \<open>Removing main lines.\<close>

lemma removeLastPrimaryLine_withGrid:
  "removeLastPrimaryLine (withGrid d u s) =
     Inr (withGrid (take (length d - (if d \<noteq> [] \<and> showRefinementPointsGlobal s then 4 else 1)) d) u s)"
  by (simp add: removeLastPrimaryLine_def withGrid_def getToolState_def showRefinementPointsTruthy_def
      showRefinementPoints_def noGrid_def)

lemma repeat_removeLastPrimaryLine:
  "k * (if showRefinementPointsGlobal s then 4 else 1) < length d \<Longrightarrow>
   repeatBody k (\<lambda>existing. removeLastPrimaryLine) n0 (withGrid d u s) =
     Inr (withGrid (take (length d - k * (if showRefinementPointsGlobal s then 4 else 1)) d) u s)"
proof (induction k arbitrary: d n0)
  case 0
  then show ?case by simp
next
  case (Suc k)
  let ?c = "if showRefinementPointsGlobal s then 4 else (1::nat)"
  have ne: "d \<noteq> []" using Suc.prems by auto
  have l: "k * ?c < length (take (length d - ?c) d)" using Suc.prems by (simp split: if_splits)
  have t: "take (length (take (length d - ?c) d) - k * ?c) (take (length d - ?c) d)
           = take (length d - Suc k * ?c) d"
    using Suc.prems by (simp add: min_def split: if_splits)
  show ?case
    using Suc.IH[OF l] ne t by (simp add: removeLastPrimaryLine_withGrid split: if_splits)
qed

text \<open>Moving every point.\<close>

lemma mapPoints_keeps:
  "map uuid (mapPoints f d) = map uuid d"
  "length (mapPoints f d) = length d"
  "(\<And>p. isCommonPoint (f p) = isCommonPoint p) \<Longrightarrow> commonFlags (mapPoints f d) = commonFlags d"
  by (simp_all add: mapPoints_def commonFlags_def comp_def)

lemma isCommonPoint_rotatePoint [simp]: "isCommonPoint (rotatePoint a m p) = isCommonPoint p"
  by (simp add: rotatePoint_def Let_def)

lemma rotateGrid_withGrid:
  assumes "d \<noteq> []" "points (hd d) \<noteq> []" "points (last d) \<noteq> []"
  shows "rotateGrid a (withGrid d u s) =
     Inr (withGrid (deactivate (int (length d) - 1) (mapPoints (rotatePoint a (middleOf d)) d)) u
            (sessionEnded (sessionStarted (length d) s)))"
proof -
  have g: "getGridMiddlePointCoords (withGrid d u s) = Inr (Some (middleOf d))"
    by (rule getGridMiddlePointCoords_grid[OF _ assms]) simp
  show ?thesis
    using assms(1)
    by (simp add: rotateGrid_def g activateDraw_withGrid completeDrawing_withGrid Let_def)
qed

lemma setOffset_withGrid:
  assumes "d \<noteq> []" "points (hd d) \<noteq> []" "currentTool s = 0" "currentHandle s = 0"
  shows "\<exists>f. (\<forall>p. isCommonPoint (f p) = isCommonPoint p) \<and>
           setOffset pos mouse (withGrid d u s) = Inr (withGrid (if fst pos < 0 \<or> snd pos < 0 then d else mapPoints f d) u s)"
proof (cases "fst pos < 0 \<or> snd pos < 0")
  case True
  then show ?thesis by (auto simp add: setOffset_def)
next
  case False
  obtain l ls where d: "d = l # ls" using assms(1) by (cases d) auto
  obtain p ps where p: "points l = p # ps" using assms(2) d by (cases "points l") auto
  let ?f = "\<lambda>q. q\<lparr>x := x q + (fst pos - x p), y := y q + (snd pos - y p)\<rparr>"
  have "setOffset pos mouse (withGrid d u s) = Inr (withGrid (mapPoints ?f d) u s)"
    using False assms(3,4) d p by (simp add: setOffset_def elemAt_def Let_def)
  with False show ?thesis by (intro exI[of _ ?f]) simp
qed

text \<open>Removing the grid.\<close>

lemma removeGrid_withGrid:
  "\<exists>s'. removeGrid (withGrid d u s) = withGrid [] u s' \<and> currentTool s' = currentTool s \<and>
        currentHandle s' = currentHandle s \<and> spacingOf s' = 5 \<and>
        noOfSecondaryLinesDefault s' = noOfSecondaryLinesDefault s \<and>
        showRefinementPointsGlobal s' = showRefinementPointsGlobal s \<and>
        currentImageId s' = currentImageId s"
  by (rule exI[of _ "removeGrid (withGrid d u s)"])
     (simp add: removeGrid_def clearToolState_def Let_def withGrid_def getToolState_def spacingOf_def)

section \<open>The shape of a grid\<close>

definition gridShape :: "bool \<Rightarrow> nat \<Rightarrow> nat \<Rightarrow> primaryLine list \<Rightarrow> bool" where
  "gridShape g N n d = (commonFlags d = (if g then refinedFlags N n else unrefinedFlags N n))"

lemma unrefined_lines:
  "gridShape False N n d \<longleftrightarrow> length d = N \<and> (\<forall>l \<in> set d. commonLine n l)"
proof
  assume a: "gridShape False N n d"
  then have c: "map (\<lambda>l. map isCommonPoint (points l)) d = replicate N (replicate n True)"
    by (simp add: gridShape_def commonFlags_def unrefinedFlags_def)
  then have len: "length d = N" using length_map[of "\<lambda>l. map isCommonPoint (points l)" d] by simp
  have "commonLine n l" if "l \<in> set d" for l
  proof -
    from that have "map isCommonPoint (points l) \<in> set (replicate N (replicate n True))"
      using c[symmetric] by simp
    then have e: "map isCommonPoint (points l) = replicate n True" by simp
    then have "length (points l) = n" using length_map[of isCommonPoint "points l"] by simp
    moreover have "allCommon (points l)"
      unfolding allCommon_def
    proof
      fix p assume "p \<in> set (points l)"
      then have "isCommonPoint p \<in> set (map isCommonPoint (points l))" by simp
      then show "isCommonPoint p" unfolding e by simp
    qed
    ultimately show ?thesis by (simp add: commonLine_def)
  qed
  with len show "length d = N \<and> (\<forall>l \<in> set d. commonLine n l)" by simp
next
  assume a: "length d = N \<and> (\<forall>l \<in> set d. commonLine n l)"
  have "map isCommonPoint (points l) = replicate n True" if "l \<in> set d" for l
  proof -
    from a that have "allCommon (points l)" "length (points l) = n" by (simp_all add: commonLine_def)
    then show ?thesis
      by (simp add: allCommon_def list_eq_iff_nth_eq)
  qed
  then have "map (\<lambda>l. map isCommonPoint (points l)) d = map (\<lambda>l. replicate n True) d" by simp
  also have "\<dots> = replicate N (replicate n True)" using a by (simp add: map_replicate_const)
  finally show "gridShape False N n d"
    by (simp add: gridShape_def commonFlags_def unrefinedFlags_def)
qed

lemma refined_lines:
  assumes "gridShape True N n d"
  shows "length d = Suc (4 * (N - 1))"
    and "i < length d \<Longrightarrow>
         map isCommonPoint (points (d ! i)) = (if i mod 4 = 0 then mainFlags n else replicate n False)"
proof -
  have c: "map (\<lambda>l. map isCommonPoint (points l)) d = refinedFlags N n"
    using assms by (simp add: gridShape_def commonFlags_def)
  show len: "length d = Suc (4 * (N - 1))"
    using length_map[of "\<lambda>l. map isCommonPoint (points l)" d] unfolding c by simp
  assume i: "i < length d"
  have "map isCommonPoint (points (d ! i)) = map (\<lambda>l. map isCommonPoint (points l)) d ! i"
    using i by simp
  also have "\<dots> = (if i mod 4 = 0 then mainFlags n else replicate n False)"
    unfolding c using i len by (simp add: nth_refinedFlags)
  finally show "map isCommonPoint (points (d ! i)) = (if i mod 4 = 0 then mainFlags n else replicate n False)" .
qed

lemma firstIsCommon_flags:
  "firstIsCommon l = (case map isCommonPoint (points l) of [] \<Rightarrow> None | f # fs \<Rightarrow> Some f)"
  by (cases "points l") (simp_all add: firstIsCommon_def)

lemma commonCount_flags:
  "length (filter isCommonPoint ps) = length (filter id (map isCommonPoint ps))"
  by (induction ps) simp_all

lemma hd_mainFlags: "\<exists>fs. mainFlags n = True # fs"
  by (cases "mainFlags n") (use nth_mainFlags[of 0 n] length_mainFlags[of n] in auto)

lemma refined_line_facts:
  assumes "gridShape True N n d" "0 < n" "i < length d"
  shows "firstIsCommon (d ! i) = Some (i mod 4 = 0)"
    and "points (d ! i) \<noteq> []"
    and "length (points (d ! i)) = (if i mod 4 = 0 then Suc (4 * (n - 1)) else n)"
    and "i mod 4 = 0 \<Longrightarrow> length (filter isCommonPoint (points (d ! i))) = n"
proof -
  note f = refined_lines(2)[OF assms(1,3)]
  obtain fs where fs: "mainFlags n = True # fs" using hd_mainFlags by blast
  obtain m where m: "n = Suc m" using assms(2) by (cases n) auto
  show "firstIsCommon (d ! i) = Some (i mod 4 = 0)"
    unfolding firstIsCommon_flags f using fs m by simp
  show "length (points (d ! i)) = (if i mod 4 = 0 then Suc (4 * (n - 1)) else n)"
    using arg_cong[OF f, of length] by (simp split: if_splits)
  then show "points (d ! i) \<noteq> []" using assms(2) by (auto split: if_splits)
  show "i mod 4 = 0 \<Longrightarrow> length (filter isCommonPoint (points (d ! i))) = n"
    unfolding commonCount_flags f using filter_mainFlags[OF assms(2)] by simp
qed

lemma shape_nonempty_lines:
  assumes "gridShape g N n d" "0 < n"
  shows "\<forall>l \<in> set d. points l \<noteq> []"
proof (cases g)
  case True
  with assms show ?thesis
    by (auto simp add: in_set_conv_nth dest: refined_line_facts(2))
next
  case False
  with assms show ?thesis by (auto simp add: unrefined_lines commonLine_def)
qed

lemma shape_length:
  "gridShape g N n d \<Longrightarrow> length d = (if g then Suc (4 * (N - 1)) else N)"
  by (cases g) (simp_all add: refined_lines(1) unrefined_lines)

lemma shape_mains:
  assumes "gridShape g N n d" "0 < n" "i < length d"
  shows "firstIsCommon (d ! i) = Some (g \<longrightarrow> i mod 4 = 0)"
    and "(g \<longrightarrow> i mod 4 = 0) \<Longrightarrow> length (filter isCommonPoint (points (d ! i))) = n"
proof -
  show "firstIsCommon (d ! i) = Some (g \<longrightarrow> i mod 4 = 0)"
  proof (cases g)
    case True
    with assms show ?thesis by (simp add: refined_line_facts(1))
  next
    case False
    with assms have "commonLine n (d ! i)" by (simp add: unrefined_lines)
    from commonLine_mainOf[OF assms(2) this] False show ?thesis by (simp add: mainOf_def)
  qed
  show "(g \<longrightarrow> i mod 4 = 0) \<Longrightarrow> length (filter isCommonPoint (points (d ! i))) = n"
  proof (cases g)
    case True
    assume "g \<longrightarrow> i mod 4 = 0"
    with True assms show ?thesis by (simp add: refined_line_facts(4))
  next
    case False
    with assms have "commonLine n (d ! i)" by (simp add: unrefined_lines)
    then show ?thesis by (rule commonCount_commonLine)
  qed
qed

lemma shape_noOfSecondaryLinesOf:
  assumes "gridShape g N n d" "0 < n" "d \<noteq> []"
  shows "noOfSecondaryLinesOf d = n"
  using shape_mains(2)[OF assms(1,2), of 0] assms(3)
  by (simp add: noOfSecondaryLinesOf_def hd_conv_nth)

lemma shape_last_main:
  assumes "gridShape g N n d" "0 < n" "d \<noteq> []"
  shows "firstIsCommon (last d) = Some True"
proof -
  have "(g \<longrightarrow> (length d - 1) mod 4 = 0)"
    using shape_length[OF assms(1)] by (auto simp add: four_mods)
  with shape_mains(1)[OF assms(1,2), of "length d - 1"] assms(3) show ?thesis
    by (simp add: last_conv_nth)
qed

lemma shape_main_counts:
  assumes "gridShape g N n d" "0 < n"
  shows "\<forall>l \<in> set d. firstIsCommon l = Some True \<longrightarrow> length (filter isCommonPoint (points l)) = n"
proof
  fix l assume "l \<in> set d"
  then obtain i where i: "i < length d" "l = d ! i" by (auto simp add: in_set_conv_nth)
  show "firstIsCommon l = Some True \<longrightarrow> length (filter isCommonPoint (points l)) = n"
    using shape_mains[OF assms i(1)] i(2) by auto
qed

section \<open>One more main line\<close>

lemma scanPreviousMain_result:
  "i \<le> length d \<Longrightarrow> \<forall>l \<in> set (take i d). points l \<noteq> [] \<Longrightarrow>
   \<exists>r. scanPreviousMain d i = Inr r \<and> (\<forall>j. r = Some j \<longrightarrow> j < i \<and> firstIsCommon (d ! j) = Some True)"
proof (induction i)
  case 0
  then show ?case by simp
next
  case (Suc i)
  have i: "i < length d" using Suc.prems(1) by simp
  have "d ! i \<in> set (take (Suc i) d)" using i by (simp add: take_Suc_conv_app_nth)
  with Suc.prems(2) have ne: "points (d ! i) \<noteq> []" by blast
  then obtain b where b: "firstIsCommon (d ! i) = Some b"
    by (cases "points (d ! i)") (simp_all add: firstIsCommon_def)
  show ?case
  proof (cases b)
    case True
    with b i show ?thesis by (simp add: elemAt_def)
  next
    case False
    have "\<forall>l \<in> set (take i d). points l \<noteq> []"
      using Suc.prems(2) i by (simp add: take_Suc_conv_app_nth)
    from Suc.IH[OF _ this] i obtain r where
      "scanPreviousMain d i = Inr r" "\<forall>j. r = Some j \<longrightarrow> j < i \<and> firstIsCommon (d ! j) = Some True"
      by auto
    with False b i show ?thesis by (auto simp add: elemAt_def)
  qed
qed

lemma those_map_Some:
  "\<forall>a \<in> set as. f a \<noteq> None \<Longrightarrow> those (map f as) = Some (map (\<lambda>a. the (f a)) as)"
  by (induction as) auto

lemma isCommonPoint_handleOf [simp]: "isCommonPoint (handleOf p) = isCommonPoint p"
  by (simp add: handleOf_def FreehandHandleData_def)

lemma generateMainPrimaryLine_next:
  assumes "d \<noteq> []" "\<forall>l \<in> set d. points l \<noteq> []" "firstIsCommon (last d) = Some True"
    and "\<forall>l \<in> set d. firstIsCommon l = Some True \<longrightarrow> length (filter isCommonPoint (points l)) = n"
    and "(if position = None then noOfSecondaryLinesOf d else noOfSecondaryLinesDefault s) = n"
  shows "\<exists>pts. generateMainPrimaryLine (Some (length d)) position (withGrid d u s) =
           Inr (withGrid (d @ [\<lparr>uuid = u, active = False, highlight = None, points = pts\<rparr>]) (Suc u) s)
         \<and> allCommon pts \<and> length pts = n"
proof -
  let ?E = "createNewMeasurement u"
  let ?D = "d @ [?E]"
  obtain m where m: "length d = Suc m" using assms(1) by (cases d) auto
  have lastd: "d ! m = last d" using m assms(1) by (simp add: last_conv_nth)
  have sp: "splice (length d) ?E d = ?D" by (simp add: splice_def)
  have prev: "getPreviousMainPrimaryLine ?D (Some (length d)) = Inr (Some m)"
    using m lastd assms(3) by (simp add: getPreviousMainPrimaryLine_def elemAt_def nth_append)
  have "\<forall>l \<in> set (take m ?D). points l \<noteq> []"
    using assms(2) m by (auto dest!: in_set_takeD)
  from scanPreviousMain_result[OF _ this] m obtain pp where
    pp: "scanPreviousMain ?D m = Inr pp"
    and ppf: "\<forall>j. pp = Some j \<longrightarrow> j < m \<and> firstIsCommon (?D ! j) = Some True"
    by auto
  have prev2: "getPreviousMainPrimaryLine ?D (Some m) = Inr pp"
    using pp by (simp add: getPreviousMainPrimaryLine_def)
  have cnt: "length (filter isCommonPoint (points (?D ! j))) = n"
    if "j < length d" "firstIsCommon (?D ! j) = Some True" for j
    using that assms(4) by (simp add: nth_append)
  have cm: "length (filter isCommonPoint (points (?D ! m))) = n"
    using cnt[of m] m lastd assms(3) by (simp add: nth_append)
  have pt: "\<exists>p. nextMainLinePoint ?D sp (Some m) pp idx = Some p \<and> isCommonPoint p \<and>
                primaryLineIdx p = length d" if "idx < n" for idx sp
  proof (cases pp)
    case None
    with that cm m show ?thesis
      by (simp add: nextMainLinePoint_def getIthCommonPointOnPrimaryLine_nth)
  next
    case (Some j)
    with ppf have j: "j < m" "firstIsCommon (?D ! j) = Some True" by auto
    with cnt[of j] m have "length (filter isCommonPoint (points (?D ! j))) = n" by simp
    with that cm m j Some show ?thesis
      by (simp add: nextMainLinePoint_def getIthCommonPointOnPrimaryLine_nth)
  qed
  define pts where
    "pts = map (\<lambda>idx. the (nextMainLinePoint ?D (spacingOf s) (Some m) pp idx)) [0..<n]"
  have th: "those (map (nextMainLinePoint ?D (spacingOf s) (Some m) pp) [0..<n]) = Some pts"
    unfolding pts_def
  proof (rule those_map_Some, rule ballI)
    fix idx assume "idx \<in> set [0..<n]"
    then have "idx < n" by simp
    from pt[OF this, of "spacingOf s"]
    show "nextMainLinePoint ?D (spacingOf s) (Some m) pp idx \<noteq> None" by auto
  qed
  have props: "\<forall>p \<in> set pts. primaryLineIdx p = length d \<and> isCommonPoint p"
  proof
    fix p assume "p \<in> set pts"
    then obtain idx where "idx < n" "p = the (nextMainLinePoint ?D (spacingOf s) (Some m) pp idx)"
      unfolding pts_def by auto
    with pt[of idx "spacingOf s"] show "primaryLineIdx p = length d \<and> isCommonPoint p" by auto
  qed
  have fe: "forEach addPoint pts (withGrid ?D (Suc u) s) = Inr (withGrid (fold pushPoint pts ?D) (Suc u) s)"
    by (rule forEach_addPoint) (use props in simp)
  have fold: "fold pushPoint pts ?D =
              d @ [\<lparr>uuid = u, active = False, highlight = None, points = map handleOf pts\<rparr>]"
    using fold_pushPoint_same_line[of pts "length d" ?D] props
    by (simp add: createNewMeasurement_def)
  have nosD: "noOfSecondaryLinesOf ?D = noOfSecondaryLinesOf d"
    using assms(1) by (simp add: noOfSecondaryLinesOf_def)
  have nos: "(if position = None then noOfSecondaryLinesOf ?D else noOfSecondaryLinesDefault s) = n"
    unfolding nosD by (rule assms(5))
  have len: "\<not> length ?D < 2" using m by simp
  have "generateMainPrimaryLine (Some (length d)) position (withGrid d u s) =
        Inr (withGrid (d @ [\<lparr>uuid = u, active = False, highlight = None, points = map handleOf pts\<rparr>])
               (Suc u) s)"
    unfolding generateMainPrimaryLine_def addNewMeasurementToState_withGrid sp Let_def
    using len nos by (cases position) (simp_all add: prev prev2 th fe fold del: length_append)
  moreover have "allCommon (map handleOf pts)" using props by (simp add: allCommon_def)
  moreover have "length (map handleOf pts) = n" by (simp add: pts_def)
  ultimately show ?thesis by blast
qed

lemma generateMainPrimaryLine_append:
  assumes "d \<noteq> []" "\<forall>l \<in> set d. points l \<noteq> []" "firstIsCommon (last d) = Some True"
    and "\<forall>l \<in> set d. firstIsCommon l = Some True \<longrightarrow> length (filter isCommonPoint (points l)) = n"
    and "noOfSecondaryLinesOf d = n"
  shows "\<exists>pts. generateMainPrimaryLine (Some (length d)) None (withGrid d u s) =
           Inr (withGrid (d @ [\<lparr>uuid = u, active = False, highlight = None, points = pts\<rparr>]) (Suc u) s)
         \<and> allCommon pts \<and> length pts = n"
  by (rule generateMainPrimaryLine_next[OF assms(1-4)]) (simp add: assms(5))

text \<open>The flags of refined points and of a subsidiary line.\<close>

lemma flags_refinedPoints:
  "allCommon ps \<Longrightarrow> ps \<noteq> [] \<Longrightarrow> map isCommonPoint (refinedPoints ps) = mainFlags (length ps)"
  by (induction ps rule: refinedPoints.induct)
     (simp_all add: allCommon_def refinementPoints_def FreehandHandleData_def mainFlags_cons)

lemma count_by_index:
  "length (filter (\<lambda>j. P (xs ! j)) [0..<length xs]) = length (filter P xs)"
proof (induction xs rule: rev_induct)
  case Nil
  then show ?case by simp
next
  case (snoc a xs)
  have "filter (\<lambda>j. P ((xs @ [a]) ! j)) [0..<length xs] = filter (\<lambda>j. P (xs ! j)) [0..<length xs]"
    by (rule filter_cong) (simp_all add: nth_append)
  with snoc show ?case by simp
qed

lemma flags_subsidiaryLine:
  "map isCommonPoint (points (subsidiaryLine u a b k)) =
     replicate (length (filter isCommonPoint (points a))) False"
  by (simp add: subsidiaryLine_def quarterBetween_def comp_def handleOf_def FreehandHandleData_def
      map_replicate_const count_by_index)

lemma addPrimaryLine_unrefined:
  assumes "gridShape False N n d" "0 < N" "0 < n" "\<not> showRefinementPointsGlobal s"
  shows "\<exists>ext u'. addPrimaryLine e (withGrid d u s) = Inr (withGrid (d @ ext) u' s) \<and>
           gridShape False (Suc N) n (d @ ext)"
proof -
  have ne: "d \<noteq> []" using assms(1,2) by (auto simp add: unrefined_lines)
  from generateMainPrimaryLine_append[OF ne shape_nonempty_lines[OF assms(1,3)]
      shape_last_main[OF assms(1,3) ne] shape_main_counts[OF assms(1,3)]
      shape_noOfSecondaryLinesOf[OF assms(1,3) ne], of u s]
  obtain pts where g: "generateMainPrimaryLine (Some (length d)) None (withGrid d u s) =
        Inr (withGrid (d @ [\<lparr>uuid = u, active = False, highlight = None, points = pts\<rparr>]) (Suc u) s)"
    and p: "allCommon pts" "length pts = n" by blast
  let ?l = "\<lparr>uuid = u, active = False, highlight = None, points = pts\<rparr>"
  have "addPrimaryLine e (withGrid d u s) = Inr (withGrid (d @ [?l]) (Suc u) s)"
    using ne assms(4) by (simp add: addPrimaryLine_def g andThen_def)
  moreover have "gridShape False (Suc N) n (d @ [?l])"
    using assms(1) p by (simp add: unrefined_lines commonLine_def)
  ultimately show ?thesis by blast
qed

lemma insertRefinementPoints_None:
  "insertRefinementPoints None key d = insertRefinementPoints (Some 0) key d"
  by (simp add: insertRefinementPoints_def)

lemma getAllMainPrimaryLines_last:
  "getAllMainPrimaryLines (d @ [l]) (Some (length d)) = Inr [length d]"
  by (subst getAllMainPrimaryLines_def, subst allMainPrimaryLinesAfter.simps)
     (simp add: getNextMainPrimaryLine_def)

lemma addPrimaryLine_refined:
  assumes "gridShape True N n d" "0 < N" "0 < n" "showRefinementPointsGlobal s"
  shows "\<exists>ext u'. addPrimaryLine e (withGrid d u s) = Inr (withGrid (d @ ext) u' s) \<and>
           gridShape True (Suc N) n (d @ ext)"
proof -
  have len: "length d = Suc (4 * (N - 1))" by (rule refined_lines(1)[OF assms(1)])
  then have ne: "d \<noteq> []" by auto
  from generateMainPrimaryLine_append[OF ne shape_nonempty_lines[OF assms(1,3)]
      shape_last_main[OF assms(1,3) ne] shape_main_counts[OF assms(1,3)]
      shape_noOfSecondaryLinesOf[OF assms(1,3) ne], of u s]
  obtain pts where g: "generateMainPrimaryLine (Some (length d)) None (withGrid d u s) =
        Inr (withGrid (d @ [\<lparr>uuid = u, active = False, highlight = None, points = pts\<rparr>]) (Suc u) s)"
    and p: "allCommon pts" "length pts = n" by blast
  define L where "L = \<lparr>uuid = u, active = False, highlight = None, points = pts\<rparr>"
  have cl: "commonLine n L" using p by (simp add: commonLine_def L_def)
  have fL: "firstIsCommon L = Some True"
    using commonLine_mainOf[OF assms(3) cl] by (simp add: mainOf_def)
  have prev: "getPreviousMainPrimaryLine (d @ [L]) (Some (Suc (length d))) = Inr (Some (length d))"
    using fL by (simp add: getPreviousMainPrimaryLine_def elemAt_def)
  have nos: "noOfSecondaryLinesOf (d @ [L]) = n"
    using shape_noOfSecondaryLinesOf[OF assms(1,3) ne] ne by (simp add: noOfSecondaryLinesOf_def)
  have ins: "insertRefinementPoints None (length d) (d @ [L]) = d @ [refineLine L]"
    unfolding insertRefinementPoints_None
    using insertRefinementPoints_commonLine[of "length d" "d @ [L]" n] cl assms(3) nos
    by simp
  have gr: "generateRefinementPointsOnCurrentPrimaryLines (Some (length d)) None
              (withGrid (d @ [L]) (Suc u) s) = Inr (withGrid (d @ [refineLine L]) (Suc u) s)"
    using ne by (simp add: generateRefinementPointsOnCurrentPrimaryLines_def
        getAllMainPrimaryLines_last ins Let_def)
  define a where "a = last d"
  have d: "d = butlast d @ [a]" using ne by (simp add: a_def)
  have la: "length (points a) = Suc (4 * (n - 1))"
    using refined_line_facts(3)[OF assms(1,3), of "length d - 1"] ne len
    by (simp add: a_def last_conv_nth four_mods)
  have lh: "length (points (hd d)) = Suc (4 * (n - 1))"
    using refined_line_facts(3)[OF assms(1,3), of 0] ne by (simp add: hd_conv_nth)
  have ca: "length (filter isCommonPoint (points a)) = n"
    using refined_line_facts(4)[OF assms(1,3), of "length d - 1"] ne len
    by (simp add: a_def last_conv_nth four_mods)
  have lb: "length (points (refineLine L)) = Suc (4 * (n - 1))"
    using length_refinedPoints[of pts] p assms(3) by (auto simp add: refineLine_def L_def)
  have fb: "firstIsCommon (refineLine L) = Some True"
  proof -
    have "refinedPoints pts \<noteq> []" using length_refinedPoints[of pts] p assms(3) by auto
    then show ?thesis
      using fL hd_refinedPoints[of pts] p assms(3)
      by (cases pts; cases "refinedPoints pts") (auto simp add: firstIsCommon_def refineLine_def L_def)
  qed
  have hd': "length (points (hd (butlast d @ [a]))) = length (points a)"
    using d lh la by simp
  note bt = generateSubsidiaryPrimaryLine_between[of "butlast d" a "refineLine L" "[]" "Suc u" s,
      OF hd' _ fb]
  have sub: "generateSubsidiaryPrimaryLine (int (length d) - 1) None True
               (withGrid (d @ [refineLine L]) (Suc u) s) =
             Inr (withGrid (d @ [subsidiaryLine (Suc u) a (refineLine L) 0,
                                subsidiaryLine (Suc (Suc u)) a (refineLine L) 1,
                                subsidiaryLine (Suc (Suc (Suc u))) a (refineLine L) 2,
                                refineLine L]) (Suc (Suc (Suc (Suc u)))) s)"
  proof -
    have e1: "d @ [refineLine L] = butlast d @ a # refineLine L # []" using d by (metis append.assoc append_Cons append_Nil)
    have e2: "int (length d) - 1 = int (length (butlast d))" using ne by (cases d) simp_all
    have e3: "butlast d @ a # x # y # z # refineLine L # [] = d @ [x, y, z, refineLine L]" for x y z
      using d by (metis append.assoc append_Cons append_Nil)
    show ?thesis
      unfolding e1 e2 using bt la lb by (simp only: e3)
  qed
  let ?ext = "[subsidiaryLine (Suc u) a (refineLine L) 0,
               subsidiaryLine (Suc (Suc u)) a (refineLine L) 1,
               subsidiaryLine (Suc (Suc (Suc u))) a (refineLine L) 2, refineLine L]"
  have "addPrimaryLine e (withGrid d u s) = Inr (withGrid (d @ ?ext) (Suc (Suc (Suc (Suc u)))) s)"
    using ne assms(4)
    by (simp add: addPrimaryLine_def g L_def[symmetric] andThen_def prev gr
        generateSubsidiaryPrimaryLines_def sub)
  moreover have "gridShape True (Suc N) n (d @ ?ext)"
  proof -
    obtain N' where N': "N = Suc N'" using assms(2) by (cases N) auto
    have c: "commonFlags d = refinedFlags (Suc N') n" using assms(1) N' by (simp add: gridShape_def)
    have fr: "map isCommonPoint (points (refineLine L)) = mainFlags n"
      using flags_refinedPoints[of pts] p assms(3) by (auto simp add: refineLine_def L_def)
    show ?thesis
      unfolding gridShape_def N' using c fr
      by (simp add: commonFlags_def refinedFlags_snoc flags_subsidiaryLine ca)
  qed
  ultimately show ?thesis by blast
qed

lemma addPrimaryLine_shape:
  assumes "gridShape (showRefinementPointsGlobal s) N n d" "0 < N" "0 < n"
  shows "\<exists>ext u'. addPrimaryLine e (withGrid d u s) = Inr (withGrid (d @ ext) u' s) \<and>
           gridShape (showRefinementPointsGlobal s) (Suc N) n (d @ ext)"
proof (cases "showRefinementPointsGlobal s")
  case True
  with addPrimaryLine_refined[of N n d s e u] assms show ?thesis by simp
next
  case False
  with addPrimaryLine_unrefined[of N n d s e u] assms show ?thesis by simp
qed

lemma repeat_addPrimaryLine:
  assumes "0 < n"
  shows "gridShape (showRefinementPointsGlobal s) N n d \<Longrightarrow> 0 < N \<Longrightarrow>
         \<exists>ext u'. repeatBody k addPrimaryLine e (withGrid d u s) = Inr (withGrid (d @ ext) u' s) \<and>
           gridShape (showRefinementPointsGlobal s) (N + k) n (d @ ext)"
proof (induction k arbitrary: N d e u)
  case 0
  then show ?case by (intro exI[of _ "[]"] exI[of _ u]) simp
next
  case (Suc k)
  from addPrimaryLine_shape[OF Suc.prems(1,2) assms, of e u] obtain ext u' where
    a: "addPrimaryLine e (withGrid d u s) = Inr (withGrid (d @ ext) u' s)"
    and b: "gridShape (showRefinementPointsGlobal s) (Suc N) n (d @ ext)" by blast
  from Suc.IH[OF b, of "Suc e" u'] obtain ext' u'' where
    c: "repeatBody k addPrimaryLine (Suc e) (withGrid (d @ ext) u' s) =
          Inr (withGrid ((d @ ext) @ ext') u'' s)"
    and e: "gridShape (showRefinementPointsGlobal s) (Suc N + k) n ((d @ ext) @ ext')" by auto
  show ?case
    using a c e by (intro exI[of _ "ext @ ext'"] exI[of _ u'']) simp
qed

section \<open>The shape, line by line\<close>

definition lineFlags :: "bool \<Rightarrow> nat \<Rightarrow> nat \<Rightarrow> bool list" where
  "lineFlags g n i = (if g then (if i mod 4 = 0 then mainFlags n else replicate n False)
                      else replicate n True)"

definition gridLength :: "bool \<Rightarrow> nat \<Rightarrow> nat" where
  "gridLength g N = (if g then Suc (4 * (N - 1)) else N)"

lemma gridShape_lines:
  "gridShape g N n d \<longleftrightarrow>
     length d = gridLength g N \<and> (\<forall>i < length d. map isCommonPoint (points (d ! i)) = lineFlags g n i)"
proof -
  have "(if g then refinedFlags N n else unrefinedFlags N n) = map (lineFlags g n) [0..<gridLength g N]"
  proof (cases g)
    case True
    then show ?thesis
      by (intro nth_equalityI)
         (simp_all add: nth_refinedFlags lineFlags_def gridLength_def del: upt_Suc)
  next
    case False
    then show ?thesis
      by (intro nth_equalityI)
         (simp_all add: unrefinedFlags_def lineFlags_def gridLength_def del: upt_Suc)
  qed
  then show ?thesis
    unfolding gridShape_def commonFlags_def
    by (auto simp add: list_eq_iff_nth_eq simp del: upt_Suc)
qed

lemma butlast_replicate_same: "butlast (replicate n a) = replicate (n - 1) a"
proof (cases n)
  case 0
  then show ?thesis by simp
next
  case (Suc m)
  have "replicate (Suc m) a = replicate m a @ [a]" by (simp add: replicate_append_same)
  then show ?thesis unfolding Suc by (simp only: butlast_snoc) simp
qed

lemma gridShape_uuid_free:
  "gridShape g N n d \<Longrightarrow> commonFlags d' = commonFlags d \<Longrightarrow> gridShape g N n d'"
  by (simp add: gridShape_def)

section \<open>One secondary line less\<close>

lemma popPoints_nth:
  "distinct idxs \<Longrightarrow>
   length (popPoints idxs d) = length d \<and>
   (\<forall>i < length d. popPoints idxs d ! i =
       (if i \<in> set idxs then (d ! i)\<lparr>points := butlast (points (d ! i))\<rparr> else d ! i))"
proof (induction idxs arbitrary: d)
  case Nil
  then show ?case by (simp add: popPoints_def)
next
  case (Cons a idxs)
  let ?d = "d[a := (d ! a)\<lparr>points := butlast (points (d ! a))\<rparr>]"
  have e: "popPoints (a # idxs) d = popPoints idxs ?d" by (simp add: popPoints_def)
  from Cons have "length (popPoints idxs ?d) = length ?d \<and>
   (\<forall>i < length ?d. popPoints idxs ?d ! i =
       (if i \<in> set idxs then (?d ! i)\<lparr>points := butlast (points (?d ! i))\<rparr> else ?d ! i))"
    by simp
  then have l: "length (popPoints idxs ?d) = length d"
    and n: "\<And>i. i < length d \<Longrightarrow> popPoints idxs ?d ! i =
       (if i \<in> set idxs then (?d ! i)\<lparr>points := butlast (points (?d ! i))\<rparr> else ?d ! i)"
    by simp_all
  have "popPoints idxs ?d ! i =
       (if i \<in> set (a # idxs) then (d ! i)\<lparr>points := butlast (points (d ! i))\<rparr> else d ! i)"
    if "i < length d" for i
  proof (cases "i = a")
    case True
    with Cons.prems that n[OF that] show ?thesis by simp
  next
    case False
    with that n[OF that] show ?thesis by simp
  qed
  with l show ?case unfolding e by simp
qed

lemma distinct_everyFourth: "distinct (filter (\<lambda>i. i mod 4 = (0::nat)) [0..<m])"
  by simp

lemma butlast4_mainFlags:
  "1 < n \<Longrightarrow> butlast (butlast (butlast (butlast (mainFlags n)))) = mainFlags (n - 1)"
proof -
  assume n: "1 < n"
  then obtain m where m: "n = Suc (Suc m)" by (cases n; simp; cases "n - 1"; simp)
  show ?thesis unfolding m by (simp add: mainFlags_snoc butlast_append)
qed

lemma removeLastSecondaryLine_shape:
  assumes "gridShape (showRefinementPointsGlobal s) N n d" "0 < N" "1 < n"
  shows "\<exists>d'. removeLastSecondaryLine (withGrid d u s) = Inr (withGrid d' u s) \<and>
           gridShape (showRefinementPointsGlobal s) N (n - 1) d' \<and> map uuid d' = map uuid d"
proof -
  let ?g = "showRefinementPointsGlobal s"
  have len: "length d = gridLength ?g N"
    and fl: "\<And>i. i < length d \<Longrightarrow> map isCommonPoint (points (d ! i)) = lineFlags ?g n i"
    using assms(1) by (simp_all add: gridShape_lines)
  have ne: "d \<noteq> []" using len assms(2) by (auto simp add: gridLength_def split: if_splits)
  let ?all = "[0..<length d]"
  let ?fourth = "filter (\<lambda>i. i mod 4 = 0) [0..<length d]"
  define d1 where "d1 = popPoints ?all d"
  define d4 where "d4 = popPoints ?fourth (popPoints ?fourth (popPoints ?fourth d1))"
  have p1: "length d1 = length d"
    "\<And>i. i < length d \<Longrightarrow> d1 ! i = (d ! i)\<lparr>points := butlast (points (d ! i))\<rparr>"
    using popPoints_nth[of ?all d] by (simp_all add: d1_def)
  have p4: "length d4 = length d"
    "\<And>i. i < length d \<Longrightarrow> d4 ! i =
       (if i mod 4 = 0
        then (d ! i)\<lparr>points := butlast (butlast (butlast (butlast (points (d ! i)))))\<rparr>
        else (d ! i)\<lparr>points := butlast (points (d ! i))\<rparr>)"
  proof -
    note a = popPoints_nth[OF distinct_everyFourth[of "length d"]]
    have l2: "length (popPoints ?fourth d1) = length d" using a[of d1] p1 by simp
    have l3: "length (popPoints ?fourth (popPoints ?fourth d1)) = length d"
      using a[of "popPoints ?fourth d1"] l2 by simp
    show "length d4 = length d"
      unfolding d4_def using a[of "popPoints ?fourth (popPoints ?fourth d1)"] l3 by simp
    fix i assume i: "i < length d"
    have n2: "popPoints ?fourth d1 ! i =
       (if i mod 4 = 0 then (d ! i)\<lparr>points := butlast (butlast (points (d ! i)))\<rparr>
        else (d ! i)\<lparr>points := butlast (points (d ! i))\<rparr>)"
      using a[of d1] p1 i by simp
    have n3: "popPoints ?fourth (popPoints ?fourth d1) ! i =
       (if i mod 4 = 0 then (d ! i)\<lparr>points := butlast (butlast (butlast (points (d ! i))))\<rparr>
        else (d ! i)\<lparr>points := butlast (points (d ! i))\<rparr>)"
      using a[of "popPoints ?fourth d1"] l2 n2 i by simp
    show "d4 ! i =
       (if i mod 4 = 0
        then (d ! i)\<lparr>points := butlast (butlast (butlast (butlast (points (d ! i)))))\<rparr>
        else (d ! i)\<lparr>points := butlast (points (d ! i))\<rparr>)"
      unfolding d4_def using a[of "popPoints ?fourth (popPoints ?fourth d1)"] l3 n3 i by simp
  qed
  define d' where "d' = (if ?g then d4 else d1)"
  have r: "removeLastSecondaryLine (withGrid d u s) = Inr (withGrid d' u s)"
    using ne by (simp add: removeLastSecondaryLine_def Let_def d'_def d4_def d1_def)
  have l': "length d' = length d" using p1 p4 by (simp add: d'_def)
  have u': "map uuid d' = map uuid d"
    using l' p1 p4 by (auto simp add: list_eq_iff_nth_eq d'_def)
  have "map isCommonPoint (points (d' ! i)) = lineFlags ?g (n - 1) i" if "i < length d" for i
  proof (cases ?g)
    case True
    then show ?thesis
      using fl[OF that] p4(2)[OF that] assms(3) butlast4_mainFlags[OF assms(3)]
      by (auto simp add: d'_def lineFlags_def map_butlast butlast_replicate_same)
  next
    case False
    then show ?thesis
      using fl[OF that] p1(2)[OF that]
      by (auto simp add: d'_def lineFlags_def map_butlast butlast_replicate_same)
  qed
  then have "gridShape ?g N (n - 1) d'"
    using l' len by (simp add: gridShape_lines)
  with r u' show ?thesis by blast
qed

lemma repeat_removeLastSecondaryLine:
  assumes "0 < N"
  shows "gridShape (showRefinementPointsGlobal s) N n d \<Longrightarrow> k < n \<Longrightarrow>
         \<exists>d'. repeatBody k (\<lambda>existing. removeLastSecondaryLine) e (withGrid d u s) =
                Inr (withGrid d' u s) \<and>
              gridShape (showRefinementPointsGlobal s) N (n - k) d' \<and> map uuid d' = map uuid d"
proof (induction k arbitrary: n d e)
  case 0
  then show ?case by (intro exI[of _ d]) simp
next
  case (Suc k)
  from Suc.prems(2) have n: "1 < n" by simp
  from removeLastSecondaryLine_shape[OF Suc.prems(1) assms n, of u] obtain d1 where
    a: "removeLastSecondaryLine (withGrid d u s) = Inr (withGrid d1 u s)"
    and b: "gridShape (showRefinementPointsGlobal s) N (n - 1) d1" and c: "map uuid d1 = map uuid d"
    by blast
  have k: "k < n - 1" using Suc.prems(2) by simp
  have nk: "n - 1 - k = n - Suc k" by simp
  from Suc.IH[OF b k, of "Suc e"] obtain d' where
    "repeatBody k (\<lambda>existing. removeLastSecondaryLine) (Suc e) (withGrid d1 u s) =
       Inr (withGrid d' u s)"
    "gridShape (showRefinementPointsGlobal s) N (n - 1 - k) d'" "map uuid d' = map uuid d1"
    by blast
  with a c nk show ?case by (intro exI[of _ d']) simp
qed

section \<open>A loop over the lines that changes one line at a time\<close>

fun mapIdx :: "(nat \<Rightarrow> 'a \<Rightarrow> 'a) \<Rightarrow> nat \<Rightarrow> 'a list \<Rightarrow> 'a list" where
  "mapIdx h k [] = []"
| "mapIdx h k (l # ls) = h k l # mapIdx h (Suc k) ls"

lemma length_mapIdx [simp]: "length (mapIdx h k ls) = length ls"
  by (induction ls arbitrary: k) simp_all

lemma nth_mapIdx: "i < length ls \<Longrightarrow> mapIdx h k ls ! i = h (k + i) (ls ! i)"
proof (induction ls arbitrary: k i)
  case Nil
  then show ?case by simp
next
  case (Cons l ls)
  then show ?case by (cases i) simp_all
qed

lemma forEach_lines:
  assumes "\<And>pre l post. P l \<Longrightarrow>
             f (length pre) (withGrid (pre @ l # post) u s) =
               Inr (withGrid (pre @ h (length pre) l # post) u s)"
  shows "\<forall>l \<in> set post. P l \<Longrightarrow>
         forEach f [length pre..<length pre + length post] (withGrid (pre @ post) u s) =
           Inr (withGrid (pre @ mapIdx h (length pre) post) u s)"
proof (induction post arbitrary: pre)
  case Nil
  then show ?case by simp
next
  case (Cons l post)
  have u: "[length pre..<length pre + length (l # post)] =
           length pre # [length (pre @ [h (length pre) l])..<length (pre @ [h (length pre) l]) + length post]"
    by (subst upt_rec) simp
  have P: "P l" "\<forall>l \<in> set post. P l" using Cons.prems by simp_all
  show ?case
    unfolding u using assms[OF P(1), of pre post] Cons.IH[OF P(2), of "pre @ [h (length pre) l]"]
    by simp
qed

lemma forEach_all_lines:
  assumes "\<And>pre l post. P l \<Longrightarrow>
             f (length pre) (withGrid (pre @ l # post) u s) =
               Inr (withGrid (pre @ h (length pre) l # post) u s)"
    and "\<forall>l \<in> set d. P l"
  shows "forEach f [0..<length d] (withGrid d u s) = Inr (withGrid (mapIdx h 0 d) u s)"
  using forEach_lines[of P f u s h d "[]", OF assms(1) assms(2)] by simp

section \<open>One more secondary line\<close>

definition extendLine :: "bool \<Rightarrow> real \<Rightarrow> primaryLine \<Rightarrow> primaryLine" where
  "extendLine g sp l =
     (let pts = points l; prevPoint = last pts
      in l\<lparr>points := pts @
           [case elemAt pts (if g then int (length pts) - 5 else int (length pts) - 2) of
              None \<Rightarrow> FreehandHandleData (x prevPoint + 0) (y prevPoint + sp) True
            | Some q \<Rightarrow> FreehandHandleData (x prevPoint + (x prevPoint - x q))
                          (y prevPoint + (y prevPoint - y q)) True]\<rparr>)"

lemma extendLine_keeps [simp]:
  "uuid (extendLine g sp l) = uuid l"
  "map isCommonPoint (points (extendLine g sp l)) = map isCommonPoint (points l) @ [True]"
  by (simp_all add: extendLine_def Let_def FreehandHandleData_def split: option.splits)

lemma secondaryLinePoint_line:
  assumes "points l \<noteq> []"
  shows "secondaryLinePoint (length pre) (withGrid (pre @ l # post) u s) =
     Inr (withGrid (pre @ (if showRefinementPointsGlobal s \<and> length pre mod 4 \<noteq> 0 then l
                          else extendLine (showRefinementPointsGlobal s) (spacingOf s) l) # post) u s)"
proof -
  have e: "elemAt (points l) (int (length (points l)) - 1) = Some (last (points l))"
    using assms by (cases "points l" rule: rev_cases) (simp_all add: elemAt_def)
  show ?thesis
    using assms
    by (simp add: secondaryLinePoint_def Let_def e addPoint_withGrid pushPoint_def extendLine_def
        split: option.splits)
qed

lemma generateSecondaryLine_withGrid:
  assumes "d \<noteq> []" "\<forall>l \<in> set d. points l \<noteq> []"
  shows "generateSecondaryLine (withGrid d u s) =
     Inr (withGrid (mapIdx (\<lambda>i l. if showRefinementPointsGlobal s \<and> i mod 4 \<noteq> 0 then l
                                else extendLine (showRefinementPointsGlobal s) (spacingOf s) l) 0 d) u s)"
  using assms(1)
  by (simp add: generateSecondaryLine_def
      forEach_all_lines[of "\<lambda>l. points l \<noteq> []", OF secondaryLinePoint_line assms(2)])

text \<open>The refinement points of the last gap of a main line.\<close>

lemma flags_splice:
  "map isCommonPoint (splice i v ps) = splice i (isCommonPoint v) (map isCommonPoint ps)"
  by (simp add: splice_def take_map drop_map)

lemma insertRefinementPoints_flags:
  assumes "key < length d"
    and "map isCommonPoint (points (d ! key)) = mainFlags (Suc k) @ [True]"
    and "Suc k \<le> noOfSecondaryLinesOf d"
  shows "\<exists>ps. insertRefinementPoints (Some k) key d = d[key := (d ! key)\<lparr>points := ps\<rparr>] \<and>
              map isCommonPoint ps = mainFlags (Suc (Suc k))"
proof -
  define f where "f = filter isCommonPoint (points (d ! key))"
  have lf: "length f = Suc (Suc k)"
    unfolding f_def commonCount_flags assms(2) using filter_mainFlags[of "Suc k"] by simp
  have pa: "pointsToAdd d key [k..<noOfSecondaryLinesOf d] = gapEntries f k"
    using pointsToAdd_gaps[OF assms(1) f_def[symmetric], of k "noOfSecondaryLinesOf d"] lf assms(3)
    by simp
  define r where "r = refinementPoints (f ! k) (f ! Suc k)"
  obtain r1 r2 r3 where r: "r = [r1, r2, r3]"
    "\<not> isCommonPoint r1" "\<not> isCommonPoint r2" "\<not> isCommonPoint r3"
    by (simp add: r_def refinementPoints_def FreehandHandleData_def)
  have ge: "gapEntries f k = [(k * 4 + 1, r1), (k * 4 + 2, r2), (k * 4 + 3, r3)]"
    using r(1) by (simp add: gapEntries_def r_def)
  let ?ps = "fold (\<lambda>e ps. splice (fst e) (snd e) ps) (gapEntries f k) (points (d ! key))"
  have at: "i = length xs \<Longrightarrow> splice i v (xs @ ys) = xs @ v # ys"
    for i and xs ys :: "bool list" and v
    by (simp add: splice_def)
  have s1: "splice (Suc (k * 4)) False (mainFlags (Suc k) @ [True]) = mainFlags (Suc k) @ [False, True]"
    by (rule at) simp
  have s2: "splice (Suc (Suc (k * 4))) False (mainFlags (Suc k) @ [False, True])
            = mainFlags (Suc k) @ [False, False, True]"
    using at[of "Suc (Suc (k * 4))" "mainFlags (Suc k) @ [False]" False "[True]"] by simp
  have s3: "splice (k * 4 + 3) False (mainFlags (Suc k) @ [False, False, True])
            = mainFlags (Suc k) @ [False, False, False, True]"
    using at[of "k * 4 + 3" "mainFlags (Suc k) @ [False, False]" False "[True]"] by simp
  have fl: "map isCommonPoint ?ps = mainFlags (Suc (Suc k))"
    unfolding ge using r(2,3,4)
    by (simp add: flags_splice assms(2) s1 s2 s3 mainFlags_snoc)
  have "insertRefinementPoints (Some k) key d = d[key := (d ! key)\<lparr>points := ?ps\<rparr>]"
    unfolding insertRefinementPoints_def Let_def using pa ge by simp
  with fl show ?thesis by blast
qed

lemma count_fourth: "length (filter (\<lambda>i. i mod 4 = 0) [0..<Suc (4 * M)]) = Suc M"
proof -
  have "length (filter (\<lambda>i. i mod 4 = 0) [0..<Suc (4 * M)]) =
        length (filter id (map (\<lambda>i. i mod 4 = 0) [0..<Suc (4 * M)]))"
    by (simp add: filter_map comp_def del: upt_Suc)
  also have "\<dots> = length (filter id (mainFlags (Suc M)))" by (simp add: mainFlags_def del: upt_Suc)
  also have "\<dots> = Suc M" by (simp add: filter_mainFlags)
  finally show ?thesis .
qed

lemma shape_noOfPrimaryLinesOf:
  assumes "gridShape g N n d" "0 < n" "0 < N"
  shows "noOfPrimaryLinesOf d = Inr N"
proof -
  have "length (filter (\<lambda>l. firstIsCommon l = Some True) d) =
        length (filter (\<lambda>i. firstIsCommon (d ! i) = Some True) [0..<length d])"
    by (rule count_by_index[of "\<lambda>l. firstIsCommon l = Some True" d, symmetric])
  also have "filter (\<lambda>i. firstIsCommon (d ! i) = Some True) [0..<length d] =
             filter (\<lambda>i. g \<longrightarrow> i mod 4 = 0) [0..<length d]"
    by (rule filter_cong) (simp_all add: shape_mains(1)[OF assms(1,2)])
  also have "length \<dots> = N"
  proof (cases g)
    case True
    obtain M where M: "N = Suc M" using assms(3) by (cases N) auto
    show ?thesis using True shape_length[OF assms(1)] count_fourth[of M] by (simp add: M)
  next
    case False
    then show ?thesis using shape_length[OF assms(1)] by simp
  qed
  finally show ?thesis
    using noOfPrimaryLinesOf_count[OF shape_nonempty_lines[OF assms(1,2)]] by simp
qed

lemma fold_insertRefinementPoints_keys:
  "distinct ks \<Longrightarrow>
   \<forall>key \<in> set ks. key < length d \<and> map isCommonPoint (points (d ! key)) = mainFlags (Suc k) @ [True] \<Longrightarrow>
   d \<noteq> [] \<Longrightarrow> noOfSecondaryLinesOf d = Suc (Suc k) \<Longrightarrow>
   \<exists>d'. fold (insertRefinementPoints (Some k)) ks d = d' \<and> length d' = length d \<and>
        map uuid d' = map uuid d \<and>
        (\<forall>i < length d. map isCommonPoint (points (d' ! i)) =
           (if i \<in> set ks then mainFlags (Suc (Suc k)) else map isCommonPoint (points (d ! i))))"
proof (induction ks arbitrary: d)
  case Nil
  then show ?case by simp
next
  case (Cons key ks)
  have key: "key < length d" "map isCommonPoint (points (d ! key)) = mainFlags (Suc k) @ [True]"
    using Cons.prems(2) by simp_all
  from insertRefinementPoints_flags[OF key] Cons.prems(4) obtain ps where
    ps: "insertRefinementPoints (Some k) key d = d[key := (d ! key)\<lparr>points := ps\<rparr>]"
    "map isCommonPoint ps = mainFlags (Suc (Suc k))" by auto
  let ?d1 = "d[key := (d ! key)\<lparr>points := ps\<rparr>]"
  have a: "\<forall>key' \<in> set ks. key' < length ?d1 \<and>
             map isCommonPoint (points (?d1 ! key')) = mainFlags (Suc k) @ [True]"
    using Cons.prems(1,2) by (auto simp add: nth_list_update)
  have b: "?d1 \<noteq> []" using Cons.prems(3) by simp
  have c: "noOfSecondaryLinesOf ?d1 = Suc (Suc k)"
  proof (cases key)
    case 0
    have "length (filter isCommonPoint ps) = Suc (Suc k)"
      unfolding commonCount_flags ps(2) by (simp add: filter_mainFlags)
    with 0 Cons.prems(3) show ?thesis
      by (cases d) (simp_all add: noOfSecondaryLinesOf_def)
  next
    case (Suc j)
    with Cons.prems(3,4) show ?thesis
      by (cases d) (simp_all add: noOfSecondaryLinesOf_def)
  qed
  from Cons.IH[OF _ a b c] Cons.prems(1) obtain d' where
    d': "fold (insertRefinementPoints (Some k)) ks ?d1 = d'" "length d' = length d"
    "map uuid d' = map uuid ?d1"
    "\<And>i. i < length d \<Longrightarrow> map isCommonPoint (points (d' ! i)) =
           (if i \<in> set ks then mainFlags (Suc (Suc k)) else map isCommonPoint (points (?d1 ! i)))"
    by auto
  have u: "map uuid ?d1 = map uuid d" using key(1) by (simp add: map_update_same)
  have "map isCommonPoint (points (d' ! i)) =
           (if i \<in> set (key # ks) then mainFlags (Suc (Suc k)) else map isCommonPoint (points (d ! i)))"
    if "i < length d" for i
    using d'(4)[OF that] that ps(2) by (auto simp add: nth_list_update)
  with d'(1,2,3) u ps(1) show ?case by simp
qed

lemma generateRefinementPoints_lastGap:
  assumes "gridShape True N (Suc k) d" "0 < N"
    and "length d1 = length d" "map uuid d1 = map uuid d"
    and "\<forall>i < length d. map isCommonPoint (points (d1 ! i)) =
           (if i mod 4 = 0 then mainFlags (Suc k) @ [True] else replicate (Suc k) False)"
  shows "\<exists>d2. generateRefinementPointsOnCurrentPrimaryLines None (Some k) (withGrid d1 u s) =
                Inr (withGrid d2 u s) \<and> length d2 = length d \<and> map uuid d2 = map uuid d \<and>
           (\<forall>i < length d. map isCommonPoint (points (d2 ! i)) =
              (if i mod 4 = 0 then mainFlags (Suc (Suc k)) else replicate (Suc k) False))"
proof -
  have len: "length d = Suc (4 * (N - 1))" by (rule refined_lines(1)[OF assms(1)])
  then have ne: "d1 \<noteq> []" using assms(3) by auto
  have pne: "\<forall>l \<in> set d1. points l \<noteq> []"
  proof
    fix l assume "l \<in> set d1"
    then obtain i where i: "i < length d" "l = d1 ! i" using assms(3) by (auto simp add: in_set_conv_nth)
    from assms(5) i have "map isCommonPoint (points l) \<noteq> []" by (auto split: if_splits)
    then show "points l \<noteq> []" by auto
  qed
  from getAllMainPrimaryLines_total[OF pne, of None] obtain ml where
    ml: "getAllMainPrimaryLines d1 None = Inr ml" by blast
  have fic: "firstIsCommon (d1 ! i) = Some (i mod 4 = 0)" if "i < length d" for i
  proof -
    obtain fs where "mainFlags (Suc k) = True # fs" using hd_mainFlags by blast
    with assms(5) that show ?thesis by (simp add: firstIsCommon_flags)
  qed
  have cnt: "noOfPrimaryLinesOf d1 = Inr N"
  proof -
    have "length (filter (\<lambda>l. firstIsCommon l = Some True) d1) =
        length (filter (\<lambda>i. firstIsCommon (d1 ! i) = Some True) [0..<length d1])"
      by (rule count_by_index[of "\<lambda>l. firstIsCommon l = Some True" d1, symmetric])
    also have "filter (\<lambda>i. firstIsCommon (d1 ! i) = Some True) [0..<length d1] =
             filter (\<lambda>i. i mod 4 = 0) [0..<length d1]"
      by (rule filter_cong) (simp_all add: fic assms(3))
    also have "length \<dots> = N"
      using assms(2,3) len count_fourth[of "N - 1"] by simp
    finally show ?thesis using noOfPrimaryLinesOf_count[OF pne] by simp
  qed
  let ?ks = "map (\<lambda>lineIdx. lineIdx * 4) [0..<N]"
  have dk: "distinct ?ks" by (simp add: distinct_map inj_on_def)
  have inks: "i \<in> set ?ks \<longleftrightarrow> i mod 4 = 0" if "i < length d" for i
  proof
    assume "i \<in> set ?ks" then show "i mod 4 = 0" by auto
  next
    assume "i mod 4 = 0"
    then have "i = (i div 4) * 4" by presburger
    then obtain j where j: "i = j * 4" ..
    with that len assms(2) have "j < N" by simp
    with j show "i \<in> set ?ks" by auto
  qed
  have kl: "\<forall>key \<in> set ?ks. key < length d1 \<and>
              map isCommonPoint (points (d1 ! key)) = mainFlags (Suc k) @ [True]"
  proof
    fix key assume "key \<in> set ?ks"
    then obtain j where j: "j < N" "key = j * 4" by auto
    then have "key < length d" using len by simp
    with assms(3,5) j show "key < length d1 \<and>
              map isCommonPoint (points (d1 ! key)) = mainFlags (Suc k) @ [True]" by simp
  qed
  have nos: "noOfSecondaryLinesOf d1 = Suc (Suc k)"
  proof -
    have "map isCommonPoint (points (d1 ! 0)) = mainFlags (Suc k) @ [True]"
      using assms(5) len by simp
    then show ?thesis
      using ne by (simp add: noOfSecondaryLinesOf_def hd_conv_nth commonCount_flags filter_mainFlags)
  qed
  from fold_insertRefinementPoints_keys[OF dk kl ne nos] obtain d2 where
    d2: "fold (insertRefinementPoints (Some k)) ?ks d1 = d2" "length d2 = length d1"
    "map uuid d2 = map uuid d1"
    "\<forall>i < length d1. map isCommonPoint (points (d2 ! i)) =
           (if i \<in> set ?ks then mainFlags (Suc (Suc k)) else map isCommonPoint (points (d1 ! i)))"
    by blast
  have "generateRefinementPointsOnCurrentPrimaryLines None (Some k) (withGrid d1 u s) =
          Inr (withGrid d2 u s)"
    using ne by (simp add: generateRefinementPointsOnCurrentPrimaryLines_def ml cnt d2(1) Let_def)
  moreover have "\<forall>i < length d. map isCommonPoint (points (d2 ! i)) =
              (if i mod 4 = 0 then mainFlags (Suc (Suc k)) else replicate (Suc k) False)"
    using d2(4) assms(3,5) inks by simp
  ultimately show ?thesis using d2(2,3) assms(3,4) by auto
qed

section \<open>One more point on the subsidiary lines\<close>

lemma getNextMainPrimaryLine_fourth:
  assumes "fr + 4 < length d"
    and "firstIsCommon (d ! (fr + 1)) = Some False" "firstIsCommon (d ! (fr + 2)) = Some False"
    and "firstIsCommon (d ! (fr + 3)) = Some False" "firstIsCommon (d ! (fr + 4)) = Some True"
  shows "getNextMainPrimaryLine d fr = Inr (Some (fr + 4))"
proof -
  have "drop (Suc fr) d = d ! (fr + 1) # d ! (fr + 2) # d ! (fr + 3) # d ! (fr + 4) # drop (fr + 5) d"
    using assms(1)
    Cons_nth_drop_Suc[of "fr + 1" d] Cons_nth_drop_Suc[of "fr + 2" d]
    Cons_nth_drop_Suc[of "fr + 3" d] Cons_nth_drop_Suc[of "fr + 4" d]
    by (simp add: numeral_eq_Suc)
  moreover have "d \<noteq> []" using assms(1) by auto
  ultimately show ?thesis
    using assms(2-5) by (simp add: getNextMainPrimaryLine_def numeral_eq_Suc)
qed

lemma getNextMainPrimaryLine_at_end:
  "length d = Suc fr \<Longrightarrow> getNextMainPrimaryLine d fr = Inr None"
  by (simp add: getNextMainPrimaryLine_def)

lemma upt_three: "[m..<m + 3] = [m, m + 1, m + 2]"
  by (simp add: upt_rec numeral_eq_Suc)

lemma elemAt_nat: "j < length xs \<Longrightarrow> elemAt xs (int j) = Some (xs ! j)"
  by (simp add: elemAt_def)

lemma subsidiaryPoint_skip:
  "fr < length d \<Longrightarrow> j < length (points (d ! fr)) \<Longrightarrow> \<not> isCommonPoint (points (d ! fr) ! j) \<Longrightarrow>
   subsidiaryPoint d fr (sub, j) = Inr None"
  by (simp add: subsidiaryPoint_def elemAt_nat Let_def)

lemma subsidiaryPoint_at_end:
  "fr < length d \<Longrightarrow> j < length (points (d ! fr)) \<Longrightarrow> getNextMainPrimaryLine d fr = Inr None \<Longrightarrow>
   subsidiaryPoint d fr (sub, j) = Inr None"
  by (simp add: subsidiaryPoint_def elemAt_nat Let_def)

lemma subsidiaryPoint_take:
  "fr < length d \<Longrightarrow> j < length (points (d ! fr)) \<Longrightarrow> isCommonPoint (points (d ! fr) ! j) \<Longrightarrow>
   getNextMainPrimaryLine d fr = Inr (Some nx) \<Longrightarrow> j < length (points (d ! nx)) \<Longrightarrow>
   subsidiaryPoint d fr (sub, j) =
     Inr (Some \<lparr>x = x (points (d ! fr) ! j) +
                      ((x (points (d ! nx) ! j) - x (points (d ! fr) ! j)) / 4) * (real sub + 1),
                 y = y (points (d ! fr) ! j) +
                      ((y (points (d ! nx) ! j) - y (points (d ! fr) ! j)) / 4) * (real sub + 1),
                 isCommonPoint = False, primaryLineIdx = fr + sub + 1\<rparr>)"
  by (simp add: subsidiaryPoint_def elemAt_nat Let_def)

lemma generateSubsidiaryPrimaryLine_extend:
  assumes "fr < length d"
    and "map isCommonPoint (points (d ! fr)) = mainFlags (Suc (Suc k))"
    and "length (points (hd d)) = 4 * k + 5"
    and "length d = Suc fr \<or>
         (fr + 4 < length d \<and> firstIsCommon (d ! (fr + 1)) = Some False \<and>
          firstIsCommon (d ! (fr + 2)) = Some False \<and> firstIsCommon (d ! (fr + 3)) = Some False \<and>
          firstIsCommon (d ! (fr + 4)) = Some True \<and> 4 * k + 5 \<le> length (points (d ! (fr + 4))))"
  shows "\<exists>d'. generateSubsidiaryPrimaryLine (int fr) (Some (int (4 * k + 5) - 3)) False (withGrid d u s) =
                Inr (withGrid d' u s) \<and> length d' = length d \<and> map uuid d' = map uuid d \<and>
           (\<forall>i < length d. map isCommonPoint (points (d' ! i)) =
               map isCommonPoint (points (d ! i)) @ (if fr < i \<and> i < fr + 4 then [False] else []))"
proof -
  have ne: "d \<noteq> []" using assms(1) by auto
  let ?ps = "points (d ! fr)"
  define m where "m = 4 * k + 2"
  have e: "int (4 * k + 5) - 3 = int m" by (simp add: m_def)
  have T: "totalNoOfSecondaryLinesOf d = m + 3"
    using assms(3) by (simp add: totalNoOfSecondaryLinesOf_def m_def)
  have lp: "length ?ps = m + 3"
    using arg_cong[OF assms(2), of length] by (simp add: m_def)
  have fl: "isCommonPoint (?ps ! j) = (j mod 4 = 0)" if "j < m + 3" for j
  proof -
    have "isCommonPoint (?ps ! j) = map isCommonPoint ?ps ! j" using that lp by simp
    also have "\<dots> = (j mod 4 = 0)"
      unfolding assms(2) using that by (simp add: nth_mainFlags m_def)
    finally show ?thesis .
  qed
  have md: "m mod 4 \<noteq> 0" "(m + 1) mod 4 \<noteq> 0" "(m + 2) mod 4 = 0"
    unfolding m_def by presburger+
  have f2: "\<not> isCommonPoint (?ps ! m)" "\<not> isCommonPoint (?ps ! (m + 1))"
    "isCommonPoint (?ps ! (m + 2))"
    using fl[of m] fl[of "m + 1"] fl[of "m + 2"] md by simp_all
  have prod: "List.product [0..<3] [m..<m + 3] =
     [(0, m), (0, m + 1), (0, m + 2), (1, m), (1, m + 1), (1, m + 2),
      (2, m), (2, m + 1), (2, m + 2)]"
    unfolding upt_three[of m] using upt_three[of 0] by simp
  have skip: "subsidiaryPoint d fr (sub, m) = Inr None"
    "subsidiaryPoint d fr (sub, m + 1) = Inr None" for sub
    using assms(1) lp f2 by (simp_all add: subsidiaryPoint_skip)
  have unf: "generateSubsidiaryPrimaryLine (int fr) (Some (int m)) False (withGrid d u s) =
     (case collect (subsidiaryPoint d fr) (List.product [0..<3] [m..<m + 3]) of
        Inl e \<Rightarrow> Inl (e, withGrid d u s)
      | Inr pts \<Rightarrow> forEach addPoint pts (withGrid d u s))"
    unfolding generateSubsidiaryPrimaryLine_def using ne by (simp add: T Let_def)
  from assms(4) show ?thesis
  proof
    assume last: "length d = Suc fr"
    have "subsidiaryPoint d fr (sub, m + 2) = Inr None" for sub
      using assms(1) lp getNextMainPrimaryLine_at_end[OF last]
      by (simp add: subsidiaryPoint_at_end)
    then have "collect (subsidiaryPoint d fr) (List.product [0..<3] [m..<m + 3]) = Inr []"
      unfolding prod using skip by simp
    then have g: "generateSubsidiaryPrimaryLine (int fr) (Some (int (4 * k + 5) - 3)) False (withGrid d u s) =
                Inr (withGrid d u s)"
      unfolding e unf by simp
    have "map isCommonPoint (points (d ! i)) =
               map isCommonPoint (points (d ! i)) @ (if fr < i \<and> i < fr + 4 then [False] else [])"
      if "i < length d" for i using that last by simp
    with g show ?thesis by blast
  next
    assume a: "fr + 4 < length d \<and> firstIsCommon (d ! (fr + 1)) = Some False \<and>
          firstIsCommon (d ! (fr + 2)) = Some False \<and> firstIsCommon (d ! (fr + 3)) = Some False \<and>
          firstIsCommon (d ! (fr + 4)) = Some True \<and> 4 * k + 5 \<le> length (points (d ! (fr + 4)))"
    then have nx: "getNextMainPrimaryLine d fr = Inr (Some (fr + 4))"
      by (intro getNextMainPrimaryLine_fourth) simp_all
    define P where "P sub =
        \<lparr>x = x (?ps ! (m + 2)) +
               ((x (points (d ! (fr + 4)) ! (m + 2)) - x (?ps ! (m + 2))) / 4) * (real sub + 1),
         y = y (?ps ! (m + 2)) +
               ((y (points (d ! (fr + 4)) ! (m + 2)) - y (?ps ! (m + 2))) / 4) * (real sub + 1),
         isCommonPoint = False, primaryLineIdx = fr + sub + 1\<rparr>" for sub :: nat
    have take: "subsidiaryPoint d fr (sub, m + 2) = Inr (Some (P sub))" for sub
      unfolding P_def
      by (rule subsidiaryPoint_take[OF assms(1) _ f2(3) nx]) (use lp a in \<open>simp_all add: m_def\<close>)
    have col: "collect (subsidiaryPoint d fr) (List.product [0..<3] [m..<m + 3])
               = Inr [P 0, P 1, P 2]"
      unfolding prod using skip take by simp
    have pidx: "\<forall>p \<in> set [P 0, P 1, P 2]. primaryLineIdx p < length d"
      using a by (simp add: P_def)
    define d' where "d' = fold pushPoint [P 0, P 1, P 2] d"
    have g: "generateSubsidiaryPrimaryLine (int fr) (Some (int (4 * k + 5) - 3)) False (withGrid d u s) =
                Inr (withGrid d' u s)"
      unfolding e unf col d'_def using forEach_addPoint[OF pidx, of u s] by simp
    have l': "length d' = length d" by (simp add: d'_def)
    have n': "d' ! i = (d ! i)\<lparr>points := points (d ! i) @
                 map handleOf (filter (\<lambda>p. primaryLineIdx p = i) [P 0, P 1, P 2])\<rparr>"
      if "i < length d" for i
      unfolding d'_def by (rule fold_pushPoint_nth[OF that])
    have u': "map uuid d' = map uuid d"
      using l' n' by (simp add: list_eq_iff_nth_eq)
    have "map isCommonPoint (points (d' ! i)) =
               map isCommonPoint (points (d ! i)) @ (if fr < i \<and> i < fr + 4 then [False] else [])"
      if "i < length d" for i
    proof -
      have "fr < i \<and> i < fr + 4 \<longleftrightarrow> i = fr + 1 \<or> i = fr + 2 \<or> i = fr + 3" by arith
      then show ?thesis
        unfolding n'[OF that] by (auto simp add: P_def)
    qed
    with g l' u' show ?thesis by blast
  qed
qed

text \<open>The grid while the subsidiary lines receive their new point, one call after the other:
  the subsidiary lines before main line \<open>4 * c\<close> have it already.\<close>

definition extending :: "nat \<Rightarrow> nat \<Rightarrow> nat \<Rightarrow> primaryLine list \<Rightarrow> bool" where
  "extending N k c d =
     (length d = Suc (4 * (N - 1)) \<and>
      (\<forall>i < length d. map isCommonPoint (points (d ! i)) =
         (if i mod 4 = 0 then mainFlags (Suc (Suc k))
          else replicate (if i < 4 * c then Suc (Suc k) else Suc k) False)))"

lemma firstIsCommon_replicate_False:
  "map isCommonPoint (points l) = replicate (Suc j) False \<Longrightarrow> firstIsCommon l = Some False"
  by (simp add: firstIsCommon_flags)

lemma firstIsCommon_mainFlags:
  "map isCommonPoint (points l) = mainFlags n \<Longrightarrow> firstIsCommon l = Some True"
  using hd_mainFlags[of n] by (auto simp add: firstIsCommon_flags)

lemma extending_step:
  assumes "extending N k c d" "c < N"
  shows "\<exists>d'. generateSubsidiaryPrimaryLine (0 + 4 * int c) (Some (int (4 * k + 5) - 3)) False
                 (withGrid d u s) = Inr (withGrid d' u s) \<and>
              extending N k (Suc c) d' \<and> map uuid d' = map uuid d"
proof -
  have len: "length d = Suc (4 * (N - 1))"
    and fl: "\<And>i. i < length d \<Longrightarrow> map isCommonPoint (points (d ! i)) =
         (if i mod 4 = 0 then mainFlags (Suc (Suc k))
          else replicate (if i < 4 * c then Suc (Suc k) else Suc k) False)"
    using assms(1) by (simp_all add: extending_def)
  define fr where "fr = 4 * c"
  have fr: "fr < length d" "fr mod 4 = 0" using assms(2) len by (simp_all add: fr_def)
  have a2: "map isCommonPoint (points (d ! fr)) = mainFlags (Suc (Suc k))"
    using fl[OF fr(1)] fr(2) by simp
  have a3: "length (points (hd d)) = 4 * k + 5"
  proof -
    have "map isCommonPoint (points (d ! 0)) = mainFlags (Suc (Suc k))" using fl[of 0] len by simp
    from arg_cong[OF this, of length] have "length (points (d ! 0)) = 4 * k + 5" by simp
    moreover have "hd d = d ! 0" using fr(1) by (cases d) simp_all
    ultimately show ?thesis by simp
  qed
  have a4: "length d = Suc fr \<or>
         (fr + 4 < length d \<and> firstIsCommon (d ! (fr + 1)) = Some False \<and>
          firstIsCommon (d ! (fr + 2)) = Some False \<and> firstIsCommon (d ! (fr + 3)) = Some False \<and>
          firstIsCommon (d ! (fr + 4)) = Some True \<and> 4 * k + 5 \<le> length (points (d ! (fr + 4))))"
  proof (cases "Suc c = N")
    case True
    then show ?thesis using len by (auto simp add: fr_def)
  next
    case False
    with assms(2) have lt: "fr + 4 < length d" using len by (simp add: fr_def)
    have md: "(fr + 1) mod 4 \<noteq> 0" "(fr + 2) mod 4 \<noteq> 0" "(fr + 3) mod 4 \<noteq> 0" "(fr + 4) mod 4 = 0"
      unfolding fr_def by presburger+
    have nl: "\<not> fr + 1 < 4 * c" "\<not> fr + 2 < 4 * c" "\<not> fr + 3 < 4 * c" by (simp_all add: fr_def)
    have s1: "firstIsCommon (d ! (fr + 1)) = Some False"
      using fl[of "fr + 1"] lt md nl by (intro firstIsCommon_replicate_False[of _ k]) simp
    have s2: "firstIsCommon (d ! (fr + 2)) = Some False"
      using fl[of "fr + 2"] lt md nl by (intro firstIsCommon_replicate_False[of _ k]) simp
    have s3: "firstIsCommon (d ! (fr + 3)) = Some False"
      using fl[of "fr + 3"] lt md nl by (intro firstIsCommon_replicate_False[of _ k]) simp
    have m4: "map isCommonPoint (points (d ! (fr + 4))) = mainFlags (Suc (Suc k))"
      using fl[of "fr + 4"] lt md by simp
    have s4: "firstIsCommon (d ! (fr + 4)) = Some True" by (rule firstIsCommon_mainFlags[OF m4])
    have l4: "4 * k + 5 \<le> length (points (d ! (fr + 4)))"
      using arg_cong[OF m4, of length] by simp
    from lt s1 s2 s3 s4 l4 show ?thesis by blast
  qed
  have e: "0 + 4 * int c = int fr" by (simp add: fr_def)
  from generateSubsidiaryPrimaryLine_extend[OF fr(1) a2 a3 a4, of u s] obtain d' where
    g: "generateSubsidiaryPrimaryLine (int fr) (Some (int (4 * k + 5) - 3)) False (withGrid d u s) =
          Inr (withGrid d' u s)"
    and l': "length d' = length d" and u': "map uuid d' = map uuid d"
    and f': "\<And>i. i < length d \<Longrightarrow> map isCommonPoint (points (d' ! i)) =
               map isCommonPoint (points (d ! i)) @ (if fr < i \<and> i < fr + 4 then [False] else [])"
    by blast
  have "map isCommonPoint (points (d' ! i)) =
         (if i mod 4 = 0 then mainFlags (Suc (Suc k))
          else replicate (if i < 4 * Suc c then Suc (Suc k) else Suc k) False)" if "i < length d" for i
  proof (cases "i mod 4 = 0")
    case True
    then have "\<not> (fr < i \<and> i < fr + 4)" unfolding fr_def by presburger
    with f'[OF that] fl[OF that] True show ?thesis by simp
  next
    case False
    show ?thesis
    proof (cases "fr < i \<and> i < fr + 4")
      case True
      then have "\<not> i < 4 * c" "i < 4 * Suc c" by (simp_all add: fr_def)
      with f'[OF that] fl[OF that] False True show ?thesis
        by (simp add: replicate_append_same)
    next
      case no: False
      then have "i < 4 * Suc c \<longleftrightarrow> i < 4 * c" using False unfolding fr_def by presburger
      with f'[OF that] fl[OF that] False no show ?thesis by simp
    qed
  qed
  then have "extending N k (Suc c) d'" using l' len by (simp add: extending_def)
  with g u' show ?thesis unfolding e by blast
qed

lemma extending_loop:
  "extending N k c d \<Longrightarrow> c \<le> N \<Longrightarrow> m = N - c \<Longrightarrow>
   \<exists>d'. forEach (\<lambda>call. generateSubsidiaryPrimaryLine (0 + 4 * int call)
                          (Some (int (4 * k + 5) - 3)) False) [c..<N] (withGrid d u s) =
          Inr (withGrid d' u s) \<and> extending N k N d' \<and> map uuid d' = map uuid d"
proof (induction m arbitrary: c d)
  case 0
  then have "c = N" by simp
  with 0 show ?case by (intro exI[of _ d]) simp
next
  case (Suc m)
  then have c: "c < N" by simp
  from extending_step[OF Suc.prems(1) c, of u s] obtain d1 where
    a: "generateSubsidiaryPrimaryLine (0 + 4 * int c) (Some (int (4 * k + 5) - 3)) False
                 (withGrid d u s) = Inr (withGrid d1 u s)"
    and b: "extending N k (Suc c) d1" and u1: "map uuid d1 = map uuid d" by blast
  have c1: "Suc c \<le> N" "m = N - Suc c" using c Suc.prems(3) by simp_all
  from Suc.IH[OF b c1] obtain d' where
    r: "forEach (\<lambda>call. generateSubsidiaryPrimaryLine (0 + 4 * int call)
                          (Some (int (4 * k + 5) - 3)) False) [Suc c..<N] (withGrid d1 u s) =
          Inr (withGrid d' u s)" "extending N k N d'" "map uuid d' = map uuid d1"
    by blast
  have "[c..<N] = c # [Suc c..<N]" using c by (simp add: upt_rec)
  with a r u1 show ?case by (intro exI[of _ d']) simp
qed

lemma addSecondaryLine_shape:
  assumes "gridShape (showRefinementPointsGlobal s) N n d" "0 < N" "0 < n"
  shows "\<exists>d'. addSecondaryLine n (withGrid d u s) = Inr (withGrid d' u s) \<and>
           gridShape (showRefinementPointsGlobal s) N (Suc n) d' \<and> map uuid d' = map uuid d"
proof -
  let ?g = "showRefinementPointsGlobal s"
  have len: "length d = gridLength ?g N"
    and fl: "\<And>i. i < length d \<Longrightarrow> map isCommonPoint (points (d ! i)) = lineFlags ?g n i"
    using assms(1) by (simp_all add: gridShape_lines)
  have ne: "d \<noteq> []" using len assms(2) by (auto simp add: gridLength_def split: if_splits)
  define d1 where "d1 = mapIdx (\<lambda>i l. if ?g \<and> i mod 4 \<noteq> 0 then l
                                else extendLine ?g (spacingOf s) l) 0 d"
  have gs: "generateSecondaryLine (withGrid d u s) = Inr (withGrid d1 u s)"
    unfolding d1_def
    by (rule generateSecondaryLine_withGrid[OF ne shape_nonempty_lines[OF assms(1,3)]])
  have l1: "length d1 = length d" by (simp add: d1_def)
  have n1: "d1 ! i = (if ?g \<and> i mod 4 \<noteq> 0 then d ! i else extendLine ?g (spacingOf s) (d ! i))"
    if "i < length d" for i
    unfolding d1_def using nth_mapIdx[OF that, of _ 0] by simp
  have u1: "map uuid d1 = map uuid d"
    using l1 n1 by (simp add: list_eq_iff_nth_eq)
  have f1: "map isCommonPoint (points (d1 ! i)) =
              (if ?g \<and> i mod 4 \<noteq> 0 then lineFlags ?g n i else lineFlags ?g n i @ [True])"
    if "i < length d" for i
    using n1[OF that] fl[OF that] by simp
  show ?thesis
  proof (cases ?g)
    case False
    have "map isCommonPoint (points (d1 ! i)) = lineFlags ?g (Suc n) i" if "i < length d" for i
      using f1[OF that] False by (simp add: lineFlags_def replicate_append_same)
    then have "gridShape ?g N (Suc n) d1" using l1 len by (simp add: gridShape_lines)
    moreover have "addSecondaryLine n (withGrid d u s) = Inr (withGrid d1 u s)"
      using False by (simp add: addSecondaryLine_def gs andThen_def)
    ultimately show ?thesis using u1 by blast
  next
    case True
    obtain k where k: "n = Suc k" using assms(3) by (cases n) auto
    have sh: "gridShape True N (Suc k) d" using assms(1) True k by simp
    have f1': "\<forall>i < length d. map isCommonPoint (points (d1 ! i)) =
           (if i mod 4 = 0 then mainFlags (Suc k) @ [True] else replicate (Suc k) False)"
      using f1 True k by (simp add: lineFlags_def)
    from generateRefinementPoints_lastGap[OF sh assms(2) l1 u1 f1', of u s] obtain d2 where
      gr: "generateRefinementPointsOnCurrentPrimaryLines None (Some k) (withGrid d1 u s) =
                Inr (withGrid d2 u s)"
      and l2: "length d2 = length d" and u2: "map uuid d2 = map uuid d"
      and f2: "\<forall>i < length d. map isCommonPoint (points (d2 ! i)) =
              (if i mod 4 = 0 then mainFlags (Suc (Suc k)) else replicate (Suc k) False)"
      by blast
    have ne1: "d1 \<noteq> []" "d2 \<noteq> []" using ne l1 l2 by auto
    have ex0: "extending N k 0 d2"
      using l2 f2 len True by (simp add: extending_def gridLength_def)
    have pne2: "\<forall>l \<in> set d2. points l \<noteq> []"
    proof
      fix l assume "l \<in> set d2"
      then obtain i where i: "i < length d" "l = d2 ! i" using l2 by (auto simp add: in_set_conv_nth)
      obtain fs where "mainFlags (Suc (Suc k)) = True # fs" using hd_mainFlags by blast
      with f2 i have "map isCommonPoint (points l) \<noteq> []"
        by (cases "i mod 4 = 0") simp_all
      then show "points l \<noteq> []" by auto
    qed
    have cnt: "noOfPrimaryLinesOf d2 = Inr N"
    proof -
      have fic: "firstIsCommon (d2 ! i) = Some (i mod 4 = 0)" if "i < length d2" for i
      proof (cases "i mod 4 = 0")
        case True
        with f2 that l2 show ?thesis
          by (simp add: firstIsCommon_mainFlags[of "d2 ! i" "Suc (Suc k)"])
      next
        case False
        with f2 that l2 show ?thesis
          by (simp add: firstIsCommon_replicate_False[of "d2 ! i" k])
      qed
      have "length (filter (\<lambda>l. firstIsCommon l = Some True) d2) =
        length (filter (\<lambda>i. firstIsCommon (d2 ! i) = Some True) [0..<length d2])"
        by (rule count_by_index[of "\<lambda>l. firstIsCommon l = Some True" d2, symmetric])
      also have "filter (\<lambda>i. firstIsCommon (d2 ! i) = Some True) [0..<length d2] =
             filter (\<lambda>i. i mod 4 = 0) [0..<length d2]"
        by (rule filter_cong) (simp_all add: fic)
      also have "length \<dots> = N"
        using assms(2) l2 len True count_fourth[of "N - 1"] by (simp add: gridLength_def)
      finally show ?thesis using noOfPrimaryLinesOf_count[OF pne2] by simp
    qed
    have T: "totalNoOfSecondaryLinesOf d2 = 4 * k + 5"
    proof -
      have "map isCommonPoint (points (d2 ! 0)) = mainFlags (Suc (Suc k))"
        using f2 ne by simp
      from arg_cong[OF this, of length] show ?thesis
        using ne1 by (simp add: totalNoOfSecondaryLinesOf_def hd_conv_nth)
    qed
    from extending_loop[OF ex0 le0 refl, of u s] obtain d3 where
      lp: "forEach (\<lambda>call. generateSubsidiaryPrimaryLine (0 + 4 * int call)
                          (Some (int (4 * k + 5) - 3)) False) [0..<N] (withGrid d2 u s) =
          Inr (withGrid d3 u s)" and ex3: "extending N k N d3" and u3: "map uuid d3 = map uuid d2"
      by blast
    have sl: "generateSubsidiaryPrimaryLines 0 (int N) False
                (Some (int (totalNoOfSecondaryLinesOf d2) - 3)) (withGrid d2 u s) = Inr (withGrid d3 u s)"
      unfolding generateSubsidiaryPrimaryLines_def T using lp by simp
    have np: "noOfPrimaryLines (withGrid d2 u s) = Inr (Some N)"
      using ne1 by (simp add: noOfPrimaryLines_def cnt)
    have "addSecondaryLine n (withGrid d u s) = Inr (withGrid d3 u s)"
      unfolding addSecondaryLine_def gs andThen_def
      using True ne1 k by (simp add: gr np sl)
    moreover have "gridShape ?g N (Suc n) d3"
    proof -
      have l3: "length d3 = Suc (4 * (N - 1))" using ex3 by (simp add: extending_def)
      have "map isCommonPoint (points (d3 ! i)) = lineFlags True (Suc (Suc k)) i"
        if "i < length d3" for i
      proof -
        have "i < 4 * N" using that l3 assms(2) by simp
        with ex3 that show ?thesis by (simp add: extending_def lineFlags_def)
      qed
      then show ?thesis using l3 True k by (simp add: gridShape_lines gridLength_def)
    qed
    ultimately show ?thesis using u3 u2 by (intro exI[of _ d3]) simp
  qed
qed

lemma repeat_addSecondaryLine:
  assumes "0 < N"
  shows "gridShape (showRefinementPointsGlobal s) N n d \<Longrightarrow> 0 < n \<Longrightarrow>
         \<exists>d'. repeatBody k addSecondaryLine n (withGrid d u s) = Inr (withGrid d' u s) \<and>
              gridShape (showRefinementPointsGlobal s) N (n + k) d' \<and> map uuid d' = map uuid d"
proof (induction k arbitrary: n d)
  case 0
  then show ?case by (intro exI[of _ d]) simp
next
  case (Suc k)
  from addSecondaryLine_shape[OF Suc.prems(1) assms Suc.prems(2), of u] obtain d1 where
    a: "addSecondaryLine n (withGrid d u s) = Inr (withGrid d1 u s)"
    and b: "gridShape (showRefinementPointsGlobal s) N (Suc n) d1" and c: "map uuid d1 = map uuid d"
    by blast
  from Suc.IH[OF b zero_less_Suc] obtain d' where
    "repeatBody k addSecondaryLine (Suc n) (withGrid d1 u s) = Inr (withGrid d' u s)"
    "gridShape (showRefinementPointsGlobal s) N (Suc n + k) d'" "map uuid d' = map uuid d1"
    by blast
  with a c show ?case by (intro exI[of _ d']) simp
qed

section \<open>A new spacing\<close>

lemma forEach_keeps:
  "(\<And>a d. a \<in> set as \<Longrightarrow> K d \<Longrightarrow> \<exists>d'. f a (withGrid d u s) = Inr (withGrid d' u s) \<and> K d') \<Longrightarrow>
   K d \<Longrightarrow> \<exists>d'. forEach f as (withGrid d u s) = Inr (withGrid d' u s) \<and> K d'"
proof (induction as arbitrary: d)
  case Nil
  then show ?case by (intro exI[of _ d]) simp
next
  case (Cons a as)
  from Cons.prems(1)[of a d] Cons.prems(2) obtain d1 where
    a: "f a (withGrid d u s) = Inr (withGrid d1 u s)" "K d1" by auto
  have "\<exists>d'. forEach f as (withGrid d1 u s) = Inr (withGrid d' u s) \<and> K d'"
    by (rule Cons.IH[OF _ a(2)]) (use Cons.prems(1) in auto)
  with a(1) show ?case by simp
qed

lemma movePointTo_keeps:
  assumes "fst pos < length d" "snd pos < length (points (d ! fst pos))"
  shows "\<exists>d'. movePointTo pos xy (withGrid d u s) = Inr (withGrid d' u s) \<and>
              commonFlags d' = commonFlags d \<and> map uuid d' = map uuid d"
proof -
  let ?l = "d ! fst pos"
  let ?d' = "d[fst pos := ?l\<lparr>points := (points ?l)[snd pos :=
                     (points ?l ! snd pos)\<lparr>x := fst xy, y := snd xy\<rparr>]\<rparr>]"
  have "movePointTo pos xy (withGrid d u s) = Inr (withGrid ?d' u s)"
    using assms by (simp add: movePointTo_def Let_def)
  moreover have "commonFlags ?d' = commonFlags d"
    unfolding commonFlags_def using assms by (simp add: map_update_same)
  moreover have "map uuid ?d' = map uuid d" using assms(1) by (simp add: map_update_same)
  ultimately show ?thesis by blast
qed

lemma shape_line_length:
  "gridShape g N n d \<Longrightarrow> i < length d \<Longrightarrow> length (points (d ! i)) = length (lineFlags g n i)"
proof -
  assume "gridShape g N n d" "i < length d"
  then have "map isCommonPoint (points (d ! i)) = lineFlags g n i" by (simp add: gridShape_lines)
  then have "length (map isCommonPoint (points (d ! i))) = length (lineFlags g n i)" by (rule arg_cong)
  then show ?thesis by simp
qed

lemma length_lineFlags:
  "length (lineFlags g n i) = (if g \<and> i mod 4 = 0 then Suc (4 * (n - 1)) else n)"
  by (simp add: lineFlags_def)

lemma secondaryLine_positions:
  assumes "gridShape (showRefinementPointsGlobal s) N n d" "0 < n" "d \<noteq> []"
    and "j < totalNoOfSecondaryLinesOf d"
  shows "\<forall>pos \<in> set (getAllPointsOnIthSecondaryLine (withGrid d u s) j).
           fst pos < length d \<and> snd pos < length (points (d ! fst pos))"
proof
  fix pos assume p: "pos \<in> set (getAllPointsOnIthSecondaryLine (withGrid d u s) j)"
  let ?g = "showRefinementPointsGlobal s"
  let ?off = "if ?g \<and> j mod 4 \<noteq> 0 then 4 else (1::nat)"
  from p assms(3) obtain i where i: "i < length d" "i mod ?off = 0"
    and pos: "pos = (i, if ?g \<and> i mod 4 \<noteq> 0 then j div 4 else j)"
    by (auto simp add: getAllPointsOnIthSecondaryLine_def Let_def)
  have T: "j < (if ?g then Suc (4 * (n - 1)) else n)"
    using assms(4) shape_line_length[OF assms(1), of 0] assms(3)
    by (simp add: totalNoOfSecondaryLinesOf_def hd_conv_nth length_lineFlags)
  have L: "length (points (d ! i)) = (if ?g \<and> i mod 4 = 0 then Suc (4 * (n - 1)) else n)"
    using shape_line_length[OF assms(1) i(1)] by (simp add: length_lineFlags)
  have "snd pos < length (points (d ! i))"
  proof (cases "?g \<and> i mod 4 \<noteq> 0")
    case True
    with i(2) have "j mod 4 = 0" by (auto split: if_splits)
    with T True assms(2) have "j div 4 < n" by (auto split: if_splits)
    with True L pos show ?thesis by simp
  next
    case False
    with T L pos show ?thesis by (auto split: if_splits)
  qed
  with i(1) pos show "fst pos < length d \<and> snd pos < length (points (d ! fst pos))" by simp
qed

lemma spacePrimaryLines_keeps:
  assumes "gridShape (showRefinementPointsGlobal s) N n d" "0 < n" "d \<noteq> []"
    and "j < totalNoOfSecondaryLinesOf d"
  shows "\<exists>d'. spacePrimaryLines dd j (withGrid d u s) = Inr (withGrid d' u s) \<and>
              commonFlags d' = commonFlags d \<and> map uuid d' = map uuid d"
proof -
  define pts where "pts = getAllPointsOnIthSecondaryLine (withGrid d u s) j"
  define K where "K d' = (commonFlags d' = commonFlags d \<and> map uuid d' = map uuid d)" for d'
  define stp where "stp = (if showRefinementPointsTruthy (withGrid d u s) \<and> j mod 4 \<noteq> 0 then 4 else (1::nat))"
  define fp where "fp = points (hd (dataOf (withGrid d u s))) ! j"
  define f where "f k = movePointTo (pts ! k)
                  (x fp + fst dd * real (k * stp), y fp + snd dd * real (k * stp))" for k
  have valid: "\<forall>pos \<in> set pts. fst pos < length d \<and> snd pos < length (points (d ! fst pos))"
    unfolding pts_def by (rule secondaryLine_positions[OF assms])
  have step: "\<exists>d''. f k (withGrid d' u s) = Inr (withGrid d'' u s) \<and> K d''"
    if k: "k \<in> set [0..<length pts]" and Kd: "K d'" for k d'
  proof -
    from k have "pts ! k \<in> set pts" by simp
    with valid have v: "fst (pts ! k) < length d" "snd (pts ! k) < length (points (d ! fst (pts ! k)))"
      by auto
    have cf: "commonFlags d' = commonFlags d" and uu: "map uuid d' = map uuid d"
      using Kd by (simp_all add: K_def)
    have l: "length d' = length d" by (rule map_eq_imp_length_eq[OF uu])
    have "commonFlags d' ! fst (pts ! k) = commonFlags d ! fst (pts ! k)" using cf by simp
    then have "map isCommonPoint (points (d' ! fst (pts ! k))) = map isCommonPoint (points (d ! fst (pts ! k)))"
      using v(1) l by (simp add: commonFlags_def)
    from map_eq_imp_length_eq[OF this]
    have ll: "length (points (d' ! fst (pts ! k))) = length (points (d ! fst (pts ! k)))" .
    have v1: "fst (pts ! k) < length d'" using v(1) l by simp
    have v2: "snd (pts ! k) < length (points (d' ! fst (pts ! k)))" using v(2) ll by simp
    from movePointTo_keeps[OF v1 v2] obtain d'' where
      "movePointTo (pts ! k) (x fp + fst dd * real (k * stp), y fp + snd dd * real (k * stp))
         (withGrid d' u s) = Inr (withGrid d'' u s)"
      "commonFlags d'' = commonFlags d'" "map uuid d'' = map uuid d'" by blast
    then show ?thesis unfolding f_def K_def using cf uu by (intro exI[of _ d'']) simp
  qed
  have "K d" by (simp add: K_def)
  have "\<exists>d'. forEach f [0..<length pts] (withGrid d u s) = Inr (withGrid d' u s) \<and> K d'"
    by (rule forEach_keeps[where K = K and f = f and as = "[0..<length pts]" and u = u and s = s
          and d = d, OF step \<open>K d\<close>])
  moreover have "spacePrimaryLines dd j (withGrid d u s) = forEach f [0..<length pts] (withGrid d u s)"
    unfolding spacePrimaryLines_def Let_def pts_def[symmetric] stp_def[symmetric] fp_def[symmetric]
      f_def[abs_def] ..
  ultimately show ?thesis unfolding K_def by simp
qed

lemma spaceSecondaryLines_keeps:
  assumes "gridShape (showRefinementPointsGlobal s) N n d" "1 < n" "i < length d"
  shows "\<exists>d'. spaceSecondaryLines e v i (withGrid d u s) = Inr (withGrid d' u s) \<and>
              commonFlags d' = commonFlags d \<and> map uuid d' = map uuid d"
proof -
  let ?g = "showRefinementPointsGlobal s"
  let ?ps = "points (d ! i)"
  have ne: "d \<noteq> []" using assms(3) by auto
  have n0: "0 < n" using assms(2) by simp
  have L: "length ?ps = (if ?g \<and> i mod 4 = 0 then Suc (4 * (n - 1)) else n)"
    using shape_line_length[OF assms(1,3)] by (simp add: length_lineFlags)
  then have l2: "1 < length ?ps" using assms(2) by (auto split: if_splits)
  have pne: "?ps \<noteq> []"
  proof
    assume "?ps = []"
    then have "length ?ps = 0" by simp
    with l2 show False by simp
  qed
  have e0: "elemAt ?ps 0 = Some (?ps ! 0)" and e1: "elemAt ?ps 1 = Some (?ps ! 1)"
    using l2 pne by (simp_all add: elemAt_def)
  have "\<exists>diff. coordDiffBetweenFirstAndSecondPointOnPrimaryLine (withGrid d u s) i = Inr diff"
  proof (cases ?g)
    case True
    then show ?thesis
      using ne pne e0 e1
      by (simp add: coordDiffBetweenFirstAndSecondPointOnPrimaryLine_def Let_def)
  next
    case False
    have c: "length (filter isCommonPoint ?ps) = n"
      using shape_mains(2)[OF assms(1) n0 assms(3)] False by simp
    then have "getIthCommonPointOnPrimaryLine d 1 (Some i) = Some (filter isCommonPoint ?ps ! 1)"
      using assms(2,3) by (simp add: getIthCommonPointOnPrimaryLine_nth)
    then show ?thesis
      using False e0
      by (simp add: coordDiffBetweenFirstAndSecondPointOnPrimaryLine_def Let_def)
  qed
  then obtain diff where
    cd: "coordDiffBetweenFirstAndSecondPointOnPrimaryLine (withGrid d u s) i = Inr diff" by blast
  define F where "F pointIdx = (?ps ! pointIdx)
       \<lparr>x := x (?ps ! 0) + fst diff / e * v * real pointIdx,
        y := y (?ps ! 0) + snd diff / e * v * real pointIdx\<rparr>" for pointIdx
  let ?d' = "d[i := (d ! i)\<lparr>points := map F [0..<length ?ps]\<rparr>]"
  have r: "spaceSecondaryLines e v i (withGrid d u s) = Inr (withGrid ?d' u s)"
    unfolding spaceSecondaryLines_def cd F_def[abs_def] by (simp add: Let_def)
  have "map isCommonPoint (map F [0..<length ?ps]) = map isCommonPoint ?ps"
    by (rule nth_equalityI) (simp_all add: F_def)
  then have "commonFlags ?d' = commonFlags d"
    unfolding commonFlags_def using assms(3) by (simp add: map_update_same)
  moreover have "map uuid ?d' = map uuid d" using assms(3) by (simp add: map_update_same)
  ultimately show ?thesis using r by blast
qed

lemma shape_next_main:
  assumes "gridShape g N n d" "0 < n" "1 < N"
  shows "getNextMainPrimaryLine d 0 = Inr (Some (if g then 4 else 1))"
proof (cases g)
  case True
  have len: "length d = Suc (4 * (N - 1))" using assms(1) True by (simp add: refined_lines(1))
  then have lt: "0 + 4 < length d" using assms(3) by simp
  have f: "firstIsCommon (d ! i) = Some (i mod 4 = 0)" if "i < length d" for i
    using refined_line_facts(1)[OF _ assms(2) that] assms(1) True by simp
  have "getNextMainPrimaryLine d 0 = Inr (Some (0 + 4))"
    by (rule getNextMainPrimaryLine_fourth[OF lt]) (use f lt in simp_all)
  with True show ?thesis by simp
next
  case False
  then have u: "length d = N" "\<forall>l \<in> set d. commonLine n l"
    using assms(1) by (simp_all add: unrefined_lines)
  then obtain a b r where d: "d = a # b # r" using assms(3) by (cases d; simp; cases "tl d"; simp)
  with u have "commonLine n b" by simp
  from commonLine_mainOf[OF assms(2) this] have "firstIsCommon b = Some True" by (simp add: mainOf_def)
  with False d show ?thesis by (simp add: getNextMainPrimaryLine_def)
qed

lemma onSpacingChange_keeps:
  assumes "gridShape (showRefinementPointsGlobal s) N n d" "1 < n" "1 < N" "spacingOf s \<noteq> 0"
  shows "\<exists>d'. onSpacingChange v (withGrid d u s) =
                Inr (withGrid d' u (sessionEnded ((sessionStarted (length d) s)
                       \<lparr>spacingFor := (spacingFor s)(currentImageId s \<mapsto> v)\<rparr>))) \<and>
              commonFlags d' = commonFlags d \<and> map uuid d' = map uuid d"
proof -
  let ?g = "showRefinementPointsGlobal s"
  let ?s1 = "sessionStarted (length d) s"
  have n0: "0 < n" using assms(2) by simp
  have len: "length d = gridLength ?g N" using assms(1) by (simp add: gridShape_lines)
  then have ne: "d \<noteq> []" using assms(3) by (auto simp add: gridLength_def split: if_splits)
  have g1: "showRefinementPointsGlobal ?s1 = ?g" by simp
  have sh1: "gridShape (showRefinementPointsGlobal ?s1) N n d" using assms(1) by simp
  have pne: "\<forall>l \<in> set d. points l \<noteq> []" by (rule shape_nonempty_lines[OF assms(1) n0])
  define nx where "nx = (if ?g then 4 else (1::nat))"
  have nxl: "nx < length d" using len assms(3) by (cases N) (auto simp add: nx_def gridLength_def)
  have "points (d ! nx) \<noteq> []" "points (hd d) \<noteq> []" using pne nxl ne by simp_all
  then have "elemAt (points (d ! nx)) 0 = Some (hd (points (d ! nx)))"
    "elemAt (points (hd d)) 0 = Some (hd (points (hd d)))" by (simp_all add: elemAt_0)
  then obtain diff where
    cd: "coordDiffBetweenFirstAndSecondMainPrimaryLine (withGrid d u ?s1) = Inr diff"
    using shape_next_main[OF assms(1) n0 assms(3)]
    by (simp add: coordDiffBetweenFirstAndSecondMainPrimaryLine_def Let_def nx_def)
  define dd where "dd = ((fst diff / (if ?g then spacingOf s * 4 else spacingOf s)) * v,
                         (snd diff / (if ?g then spacingOf s * 4 else spacingOf s)) * v)"
  define K where "K d' = (commonFlags d' = commonFlags d \<and> map uuid d' = map uuid d)" for d'
  have Kshape: "gridShape ?g N n d'" if "K d'" for d'
    using that assms(1) by (simp add: K_def gridShape_def)
  have Klen: "length d' = length d" if "K d'" for d'
    using that map_eq_imp_length_eq[of uuid d' uuid d] by (simp add: K_def)
  have KT: "totalNoOfSecondaryLinesOf d' = totalNoOfSecondaryLinesOf d" if "K d'" for d'
  proof -
    have "commonFlags d' ! 0 = commonFlags d ! 0" using that by (simp add: K_def)
    then have "map isCommonPoint (points (d' ! 0)) = map isCommonPoint (points (d ! 0))"
      using ne Klen[OF that] by (simp add: commonFlags_def)
    moreover have "d' \<noteq> []" using ne Klen[OF that] by auto
    ultimately show ?thesis
      using ne map_eq_imp_length_eq[of isCommonPoint "points (d' ! 0)" isCommonPoint "points (d ! 0)"]
      by (simp add: totalNoOfSecondaryLinesOf_def hd_conv_nth)
  qed
  have st1: "\<exists>d''. spacePrimaryLines dd j (withGrid d' u ?s1) = Inr (withGrid d'' u ?s1) \<and> K d''"
    if "j \<in> set [0..<totalNoOfSecondaryLinesOf d]" "K d'" for j d'
  proof -
    have a: "gridShape (showRefinementPointsGlobal ?s1) N n d'" using Kshape[OF that(2)] by simp
    have b: "d' \<noteq> []" using Klen[OF that(2)] ne by auto
    have c: "j < totalNoOfSecondaryLinesOf d'" using that(1) KT[OF that(2)] by simp
    from spacePrimaryLines_keeps[OF a n0 b c, of dd u] that(2) show ?thesis
      by (auto simp add: K_def)
  qed
  have "K d" by (simp add: K_def)
  from forEach_keeps[where K = K and f = "spacePrimaryLines dd"
      and as = "[0..<totalNoOfSecondaryLinesOf d]" and u = u and s = ?s1 and d = d, OF st1 this]
  obtain d2 where
    l1: "forEach (spacePrimaryLines dd) [0..<totalNoOfSecondaryLinesOf d] (withGrid d u ?s1) =
           Inr (withGrid d2 u ?s1)" and K2: "K d2" by blast
  have st2: "\<exists>d''. spaceSecondaryLines (spacingOf s) v i (withGrid d' u ?s1) =
                  Inr (withGrid d'' u ?s1) \<and> K d''"
    if "i \<in> set [0..<length d2]" "K d'" for i d'
  proof -
    have a: "gridShape (showRefinementPointsGlobal ?s1) N n d'" using Kshape[OF that(2)] by simp
    have c: "i < length d'" using that(1) Klen[OF that(2)] Klen[OF K2] by simp
    from spaceSecondaryLines_keeps[OF a assms(2) c, of "spacingOf s" v u] that(2) show ?thesis
      by (auto simp add: K_def)
  qed
  from forEach_keeps[where K = K and f = "spaceSecondaryLines (spacingOf s) v"
      and as = "[0..<length d2]" and u = u and s = ?s1 and d = d2, OF st2 K2]
  obtain d3 where
    l2: "forEach (spaceSecondaryLines (spacingOf s) v) [0..<length d2] (withGrid d2 u ?s1) =
           Inr (withGrid d3 u ?s1)" and K3: "K d3" by blast
  let ?s3 = "?s1\<lparr>spacingFor := (spacingFor s)(currentImageId s \<mapsto> v)\<rparr>"
  have dr: "drawing ?s3" "currentTool ?s3 = int (length d) - 1"
    by (simp_all add: sessionStarted_def)
  have sf: "spacingFor ?s1 = spacingFor s" by (simp add: sessionStarted_def)
  have fin: "completeDrawing (withGrid d3 u ?s3) =
             Inr (withGrid (deactivate (int (length d) - 1) d3) u (sessionEnded ?s3))"
    using completeDrawing_withGrid[OF dr(1), of d3 u] dr(2) by simp
  have main: "onSpacingChange v (withGrid d u s) =
      andThen (forEach (spacePrimaryLines dd) [0..<totalNoOfSecondaryLinesOf d] (withGrid d u ?s1))
        (\<lambda>s2. andThen
              (forEach (spaceSecondaryLines (spacingOf s) v) [0..<length (dataOf s2)] s2)
              (\<lambda>s3. completeDrawing
                 (s3\<lparr>spacingFor := (spacingFor s3)(currentImageId s3 \<mapsto> v)\<rparr>)))"
    unfolding onSpacingChange_def
    using ne assms(4)
    by (simp add: activateDraw_withGrid Let_def cd dd_def)
  have "onSpacingChange v (withGrid d u s) =
        Inr (withGrid (deactivate (int (length d) - 1) d3) u (sessionEnded ?s3))"
    unfolding main l1 by (simp add: andThen_def l2 sf fin)
  moreover have "commonFlags (deactivate (int (length d) - 1) d3) = commonFlags d"
    "map uuid (deactivate (int (length d) - 1) d3) = map uuid d"
    using K3 by (simp_all add: K_def)
  ultimately show ?thesis by blast
qed

section \<open>The uuids of the main lines\<close>

definition mainUuids :: "primaryLine list \<Rightarrow> uuid list" where
  "mainUuids d = map uuid (filter (\<lambda>l. firstIsCommon l = Some True) d)"

lemma mainUuids_append: "mainUuids (d @ e) = mainUuids d @ mainUuids e"
  by (simp add: mainUuids_def)

lemma map_filter_zip:
  "map f (filter P xs) = map fst (filter snd (zip (map f xs) (map P xs)))"
  by (induction xs) simp_all

lemma firstIsCommon_commonFlags:
  "commonFlags d' = commonFlags d \<Longrightarrow>
   map (\<lambda>l. firstIsCommon l = Some True) d' = map (\<lambda>l. firstIsCommon l = Some True) d"
proof -
  assume c: "commonFlags d' = commonFlags d"
  have "map (\<lambda>l. firstIsCommon l = Some True) e =
        map (\<lambda>fs. (case fs of [] \<Rightarrow> None | f # r \<Rightarrow> Some f) = Some True) (commonFlags e)" for e
    by (simp add: commonFlags_def firstIsCommon_flags comp_def)
  with c show ?thesis by simp
qed

lemma mainUuids_cong:
  "map uuid d' = map uuid d \<Longrightarrow> commonFlags d' = commonFlags d \<Longrightarrow> mainUuids d' = mainUuids d"
  unfolding mainUuids_def map_filter_zip[of uuid]
  using firstIsCommon_commonFlags[of d' d] by simp

lemma mainUuids_shape:
  assumes "gridShape g N n d" "gridShape g N n' d'" "0 < n" "0 < n'" "map uuid d' = map uuid d"
  shows "mainUuids d' = mainUuids d"
proof -
  have l: "length d' = length d" by (rule map_eq_imp_length_eq[OF assms(5)])
  have "map (\<lambda>l. firstIsCommon l = Some True) d' = map (\<lambda>l. firstIsCommon l = Some True) d"
    by (rule nth_equalityI)
       (simp_all add: l shape_mains(1)[OF assms(1,3)] shape_mains(1)[OF assms(2,4)])
  then show ?thesis
    unfolding mainUuids_def map_filter_zip[of uuid] using assms(5) by simp
qed

section \<open>Refinement switched on and off, on a grid of the general shape\<close>

lemma flags_refinedGrid:
  "\<forall>l \<in> set d. commonLine n l \<Longrightarrow> 0 < n \<Longrightarrow> d \<noteq> [] \<Longrightarrow>
   commonFlags (refinedGrid u d) = refinedFlags (length d) n"
proof (induction u d rule: refinedGrid.induct)
  case (1 u a b r)
  have a: "allCommon (points a)" "length (points a) = n" "points a \<noteq> []"
    using "1.prems"(1,2) by (auto simp add: commonLine_def)
  have ca: "length (filter isCommonPoint (points a)) = n"
    using a(1,2) by (simp add: allCommon_def)
  have fa: "map isCommonPoint (points (refineLine a)) = mainFlags n"
    using flags_refinedPoints[OF a(1,3)] a(2) by (simp add: refineLine_def)
  have "commonFlags (refinedGrid (Suc (Suc (Suc u))) (b # r)) = refinedFlags (length (b # r)) n"
    by (rule "1.IH") (use "1.prems" in simp_all)
  then show ?case
    using fa by (simp add: commonFlags_def refinedFlags_cons flags_subsidiaryLine ca)
next
  case (2 u a)
  have a: "allCommon (points a)" "length (points a) = n" "points a \<noteq> []"
    using "2.prems"(1,2) by (auto simp add: commonLine_def)
  show ?case
    using flags_refinedPoints[OF a(1,3)] a(2) by (simp add: commonFlags_def refineLine_def)
next
  case (3 u)
  then show ?case by simp
qed

lemma uuids_refinedGrid:
  "\<forall>l \<in> set d. commonLine n l \<Longrightarrow> 0 < n \<Longrightarrow> mainUuids (refinedGrid u d) = map uuid d"
proof (induction u d rule: refinedGrid.induct)
  case (1 u a b r)
  have m: "mainOf n a" using "1.prems" by (simp add: commonLine_mainOf)
  have a: "allCommon (points a)" "points a \<noteq> []"
    using "1.prems"(1,2) by (auto simp add: commonLine_def)
  have fa: "firstIsCommon (refineLine a) = Some True"
    using firstIsCommon_mainFlags[of "refineLine a" "length (points a)"] flags_refinedPoints[OF a]
    by (simp add: refineLine_def)
  have "mainUuids (refinedGrid (Suc (Suc (Suc u))) (b # r)) = map uuid (b # r)"
    by (rule "1.IH") (use "1.prems" in simp_all)
  then show ?case
    using fa firstIsCommon_subsidiaryLine[OF m]
    by (simp add: mainUuids_def refineLine_def)
next
  case (2 u a)
  have a: "allCommon (points a)" "points a \<noteq> []"
    using "2.prems"(1,2) by (auto simp add: commonLine_def)
  have fa: "firstIsCommon (refineLine a) = Some True"
    using firstIsCommon_mainFlags[of "refineLine a" "length (points a)"] flags_refinedPoints[OF a]
    by (simp add: refineLine_def)
  then show ?case by (simp add: mainUuids_def refineLine_def)
next
  case (3 u)
  then show ?case by (simp add: mainUuids_def)
qed

lemma enable_refinement_shape:
  assumes "gridShape False N n d" "0 < N" "0 < n"
    and "showRefinementPointsFor s (currentImageId s) \<noteq> Some True"
  shows "\<exists>d' u'. set_showRefinementPoints (JSBoolean True) (withGrid d u s) =
           Inr (withGrid d' u'
                  (s\<lparr>showRefinementPointsGlobal := True,
                     showRefinementPointsFor := (showRefinementPointsFor s)(currentImageId s \<mapsto> True)\<rparr>)) \<and>
           gridShape True N n d' \<and> mainUuids d' = mainUuids d"
proof -
  have l: "length d = N" and c: "\<forall>l \<in> set d. commonLine n l"
    using assms(1) by (simp_all add: unrefined_lines)
  have ne: "d \<noteq> []" using l assms(2) by auto
  have "gridShape True N n (refinedGrid u d)"
    using flags_refinedGrid[OF c assms(3) ne] l by (simp add: gridShape_def)
  moreover have "mainUuids (refinedGrid u d) = mainUuids d"
  proof -
    have "filter (\<lambda>l. firstIsCommon l = Some True) d = d"
      using c commonLine_mainOf[OF assms(3)] by (auto simp add: mainOf_def filter_id_conv)
    then show ?thesis using uuids_refinedGrid[OF c assms(3)] by (simp add: mainUuids_def)
  qed
  ultimately show ?thesis
    using enable_refinement[OF c assms(3) ne assms(4), of u] by blast
qed

lemma disable_refinement_shape:
  assumes "gridShape True N n d" "0 < N" "0 < n"
    and "showRefinementPointsFor s (currentImageId s) \<noteq> Some False"
  shows "\<exists>d'. set_showRefinementPoints (JSBoolean False) (withGrid d u s) =
           Inr (withGrid d' u
                  (s\<lparr>showRefinementPointsGlobal := False,
                     showRefinementPointsFor := (showRefinementPointsFor s)(currentImageId s \<mapsto> False)\<rparr>)) \<and>
           gridShape False N n d' \<and> mainUuids d' = mainUuids d"
proof -
  let ?main = "\<lambda>l. firstIsCommon l = Some True"
  have len: "length d = Suc (4 * (N - 1))" by (rule refined_lines(1)[OF assms(1)])
  then obtain l ls where d: "d = l # ls" by (cases d) auto
  have keep: "(points (stripLine l') \<noteq> []) = ?main l'" if "l' \<in> set d" for l'
  proof -
    from that obtain i where i: "i < length d" "l' = d ! i" by (auto simp add: in_set_conv_nth)
    have f: "map isCommonPoint (points l') = (if i mod 4 = 0 then mainFlags n else replicate n False)"
      using refined_lines(2)[OF assms(1) i(1)] i(2) by simp
    have "length (filter isCommonPoint (points l')) = (if i mod 4 = 0 then n else 0)"
      unfolding commonCount_flags f using filter_mainFlags[OF assms(3)] by simp
    moreover have "?main l' = (i mod 4 = 0)"
      using refined_line_facts(1)[OF assms(1,3) i(1)] i(2) by simp
    ultimately show ?thesis using assms(3) by (auto simp add: stripLine_def)
  qed
  have ml: "?main l" using refined_line_facts(1)[OF assms(1,3), of 0] d by simp
  define d' where "d' = stripLine l # filter (\<lambda>l. points l \<noteq> []) (map stripLine ls)"
  have "d' = filter (\<lambda>l. points l \<noteq> []) (map stripLine d)"
    using keep[of l] ml d by (simp add: d'_def)
  also have "\<dots> = map stripLine (filter (\<lambda>l'. points (stripLine l') \<noteq> []) d)"
    by (simp add: filter_map comp_def)
  also have "filter (\<lambda>l'. points (stripLine l') \<noteq> []) d = filter ?main d"
    by (rule filter_cong) (simp_all add: keep)
  finally have d'e: "d' = map stripLine (filter ?main d)" .
  have cnt: "length (filter ?main d) = N"
    using shape_noOfPrimaryLinesOf[OF assms(1,3,2)]
      noOfPrimaryLinesOf_count[OF shape_nonempty_lines[OF assms(1,3)]] by simp
  have cl: "commonLine n l'" if "l' \<in> set d'" for l'
  proof -
    from that d'e obtain m where m: "m \<in> set d" "?main m" "l' = stripLine m" by auto
    from shape_main_counts[OF assms(1,3)] m have "length (filter isCommonPoint (points m)) = n"
      by blast
    with m(3) show ?thesis by (simp add: commonLine_def stripLine_def allCommon_def)
  qed
  have sh: "gridShape False N n d'"
    unfolding unrefined_lines using cl cnt by (simp add: d'e)
  have "filter ?main d' = d'"
    using cl commonLine_mainOf[OF assms(3)] by (auto simp add: mainOf_def filter_id_conv)
  then have mu: "mainUuids d' = mainUuids d"
    unfolding mainUuids_def by (simp add: d'e comp_def stripLine_def)
  have "set_showRefinementPoints (JSBoolean False) (withGrid d u s) =
           Inr (withGrid d' u
                  (s\<lparr>showRefinementPointsGlobal := False,
                     showRefinementPointsFor := (showRefinementPointsFor s)(currentImageId s \<mapsto> False)\<rparr>))"
    using assms(4)
    by (simp add: set_showRefinementPoints_def d removeAllRefinementPoints_effect andThen_def d'_def)
  with sh mu show ?thesis by blast
qed

section \<open>The states a grid goes through\<close>

text \<open>The tool has full lines on the current image, no drag is in progress, and the lines
  are none at all or a grid of at least two main lines with at least two common points each,
  un-refined or refined as the refinement flag says.\<close>

definition wellFormed :: "GridTool \<Rightarrow> bool" where
  "wellFormed s =
     (getToolState s = Some (FullLines (dataOf s)) \<and> currentTool s = 0 \<and> currentHandle s = 0 \<and>
      spacingOf s \<noteq> 0 \<and> noOfSecondaryLinesDefault s \<noteq> 0 \<and>
      (dataOf s = [] \<or>
       (\<exists>N n. 2 \<le> N \<and> 2 \<le> n \<and> gridShape (showRefinementPointsGlobal s) N n (dataOf s) \<and>
              showRefinementPointsFor s (currentImageId s) = Some (showRefinementPointsGlobal s))))"

lemma wellFormed_withGrid:
  "wellFormed (withGrid d u s) \<longleftrightarrow>
     currentTool s = 0 \<and> currentHandle s = 0 \<and> spacingOf s \<noteq> 0 \<and> noOfSecondaryLinesDefault s \<noteq> 0 \<and>
     (d = [] \<or>
      (\<exists>N n. 2 \<le> N \<and> 2 \<le> n \<and> gridShape (showRefinementPointsGlobal s) N n d \<and>
             showRefinementPointsFor s (currentImageId s) = Some (showRefinementPointsGlobal s)))"
  by (simp add: wellFormed_def)

lemma wellFormed_form: "wellFormed s \<Longrightarrow> withGrid (dataOf s) (uuidSupply s) s = s"
  by (rule withGrid_self) (simp add: wellFormed_def)

section \<open>Initial placement of a grid of any size\<close>

lemma addNewMeasurementToState_any:
  "addNewMeasurementToState idx s =
     withGrid (case idx of None \<Rightarrow> dataOf s @ [createNewMeasurement (uuidSupply s)]
               | Some i \<Rightarrow> splice i (createNewMeasurement (uuidSupply s)) (dataOf s))
       (Suc (uuidSupply s)) s"
proof -
  have "dataOf (s\<lparr>uuidSupply := v\<rparr>) = dataOf s" for v
    by (simp add: dataOf_def getToolState_def)
  then show ?thesis
    by (cases idx) (simp_all add: addNewMeasurementToState_def uuidv4_def withGrid_def setData_def Let_def)
qed

lemma generateMainPrimaryLine_first:
  assumes "dataOf s = []" "noOfSecondaryLinesDefault s = n" "0 < n"
  shows "\<exists>l. generateMainPrimaryLine (Some 0) (Some pos) s = Inr (withGrid [l] (Suc (uuidSupply s)) s) \<and>
             commonLine n l"
proof -
  let ?E = "createNewMeasurement (uuidSupply s)"
  let ?s = "withGrid [?E] (Suc (uuidSupply s)) s"
  define pts where "pts = map (firstMainLinePoint ?s pos) [0..<n]"
  have props: "\<forall>p \<in> set pts. primaryLineIdx p = 0 \<and> isCommonPoint p"
    by (auto simp add: pts_def firstMainLinePoint_def)
  have fe: "forEach addPoint pts ?s = Inr (withGrid (fold pushPoint pts [?E]) (Suc (uuidSupply s)) s)"
    by (rule forEach_addPoint) (use props in simp)
  have fold: "fold pushPoint pts [?E] =
     [\<lparr>uuid = uuidSupply s, active = False, highlight = None, points = map handleOf pts\<rparr>]"
    using fold_pushPoint_same_line[of pts 0 "[?E]"] props by (simp add: createNewMeasurement_def)
  let ?l = "\<lparr>uuid = uuidSupply s, active = False, highlight = None, points = map handleOf pts\<rparr>"
  have "generateMainPrimaryLine (Some 0) (Some pos) s = Inr (withGrid [?l] (Suc (uuidSupply s)) s)"
    unfolding generateMainPrimaryLine_def addNewMeasurementToState_any Let_def
    using assms by (simp add: splice_def pts_def[symmetric] fe fold)
  moreover have "commonLine n ?l"
    using props by (simp add: commonLine_def allCommon_def pts_def)
  ultimately show ?thesis by blast
qed

lemma placement_loop:
  assumes "noOfSecondaryLinesDefault s = n" "0 < n"
  shows "gridShape False k n d \<Longrightarrow> 0 < k \<Longrightarrow> k \<le> P \<Longrightarrow> m = P - k \<Longrightarrow>
         \<exists>d' u'. forEach (\<lambda>lineIdx. generateMainPrimaryLine (Some lineIdx) (Some pos)) [k..<P]
                    (withGrid d u s) = Inr (withGrid d' u' s) \<and> gridShape False P n d'"
proof (induction m arbitrary: k d u)
  case 0
  then have "k = P" by simp
  with 0 show ?case by (intro exI[of _ d] exI[of _ u]) simp
next
  case (Suc m)
  then have k: "k < P" by simp
  have l: "length d = k" and c: "\<forall>l \<in> set d. commonLine n l"
    using Suc.prems(1) by (simp_all add: unrefined_lines)
  have ne: "d \<noteq> []" using l Suc.prems(2) by auto
  have nn: "(if Some pos = None then noOfSecondaryLinesOf d else noOfSecondaryLinesDefault s) = n"
    using assms(1) by simp
  from generateMainPrimaryLine_next[OF ne shape_nonempty_lines[OF Suc.prems(1) assms(2)]
      shape_last_main[OF Suc.prems(1) assms(2) ne] shape_main_counts[OF Suc.prems(1) assms(2)] nn,
      of u]
  obtain pts where g: "generateMainPrimaryLine (Some (length d)) (Some pos) (withGrid d u s) =
        Inr (withGrid (d @ [\<lparr>uuid = u, active = False, highlight = None, points = pts\<rparr>]) (Suc u) s)"
    and p: "allCommon pts" "length pts = n" by blast
  let ?d1 = "d @ [\<lparr>uuid = u, active = False, highlight = None, points = pts\<rparr>]"
  have sh: "gridShape False (Suc k) n ?d1"
    using Suc.prems(1) p by (simp add: unrefined_lines commonLine_def)
  have k1: "Suc k \<le> P" "m = P - Suc k" using k Suc.prems(4) by simp_all
  from Suc.IH[OF sh zero_less_Suc k1, of "Suc u"] obtain d' u' where
    r: "forEach (\<lambda>lineIdx. generateMainPrimaryLine (Some lineIdx) (Some pos)) [Suc k..<P]
          (withGrid ?d1 (Suc u) s) = Inr (withGrid d' u' s)" "gridShape False P n d'" by blast
  have "[k..<P] = k # [Suc k..<P]" using k by (simp add: upt_rec)
  with g r l show ?case by (intro exI[of _ d'] exI[of _ u']) simp
qed

lemma disable_unrefined:
  assumes "gridShape False N n d" "0 < N" "0 < n"
    and "showRefinementPointsFor s (currentImageId s) \<noteq> Some False"
  shows "set_showRefinementPoints (JSBoolean False) (withGrid d u s) =
           Inr (withGrid d u
                  (s\<lparr>showRefinementPointsGlobal := False,
                     showRefinementPointsFor := (showRefinementPointsFor s)(currentImageId s \<mapsto> False)\<rparr>))"
proof -
  have l: "length d = N" and c: "\<forall>l \<in> set d. commonLine n l"
    using assms(1) by (simp_all add: unrefined_lines)
  then obtain a r where d: "d = a # r" using assms(2) by (cases d) auto
  have st: "stripLine l = l" if "l \<in> set d" for l
    using c that by (simp add: stripLine_common commonLine_def)
  have m: "map stripLine r = r" using st d by (simp add: map_idI)
  have "\<forall>l \<in> set r. points l \<noteq> []" using c d assms(3) by (auto simp add: commonLine_def)
  then have f: "filter (\<lambda>l. points l \<noteq> []) r = r" by (simp add: filter_id_conv)
  show ?thesis
    using assms(4) st[of a] d
    by (simp add: set_showRefinementPoints_def removeAllRefinementPoints_effect andThen_def m f)
qed

lemma placement_wellFormed:
  assumes "2 \<le> P" "2 \<le> S"
  shows "\<exists>s1. addNewMeasurement pos (newTool P S img) = Inr s1 \<and> wellFormed s1 \<and> dataOf s1 \<noteq> [] \<and>
              \<not> showRefinementPointsGlobal s1 \<and> gridShape False P S (dataOf s1)"
proof -
  define sa where "sa = (newTool P S img)\<lparr>drawing := True\<rparr>"
  have ng: "noGrid (newTool P S img)"
    by (simp add: noGrid_def getToolState_def newTool_def)
  have act: "activateDraw (newTool P S img) = sa"
    by (simp add: activateDraw_def totalNoOfPrimaryLines_def getToolState_def newTool_def sa_def)
  have sa: "dataOf sa = []" "noOfSecondaryLinesDefault sa = S" "uuidSupply sa = 0" "drawing sa"
    "currentTool sa = - 1" "showRefinementPointsGlobal sa = False"
    "showRefinementPointsFor sa = Map.empty" "spacingOf sa = 5" "currentHandle sa = 0"
    by (simp_all add: sa_def newTool_def dataOf_def getToolState_def spacingOf_def)
  have S0: "0 < S" using assms(2) by simp
  from generateMainPrimaryLine_first[OF sa(1,2) S0, of pos] obtain l where
    g0: "generateMainPrimaryLine (Some 0) (Some pos) sa = Inr (withGrid [l] (Suc 0) sa)"
    and l: "commonLine S l" by (auto simp add: sa(3))
  have sh1: "gridShape False 1 S [l]" using l by (simp add: unrefined_lines)
  from placement_loop[OF sa(2) S0 sh1 _ _ refl, of P pos "Suc 0"] assms(1) obtain d u where
    lp: "forEach (\<lambda>lineIdx. generateMainPrimaryLine (Some lineIdx) (Some pos)) [1..<P]
           (withGrid [l] (Suc 0) sa) = Inr (withGrid d u sa)" and sh: "gridShape False P S d"
    by auto
  have up: "[0..<P] = 0 # [1..<P]" using assms(1) by (simp add: upt_rec)
  have all: "forEach (\<lambda>lineIdx. generateMainPrimaryLine (Some lineIdx) (Some pos)) [0..<P] sa =
             Inr (withGrid d u sa)"
    unfolding up using g0 lp by simp
  have cd: "completeDrawing (withGrid d u sa) = Inr (withGrid d u (sessionEnded sa))"
    using completeDrawing_withGrid[OF sa(4), of d u] sa(5) by (simp add: deactivate_def)
  have P0: "0 < P" using assms(1) by simp
  have nf: "showRefinementPointsFor (sessionEnded sa) (currentImageId (sessionEnded sa)) \<noteq> Some False"
    by (simp add: sa(7))
  let ?s' = "(sessionEnded sa)\<lparr>showRefinementPointsGlobal := False,
               showRefinementPointsFor :=
                 (showRefinementPointsFor (sessionEnded sa))(currentImageId (sessionEnded sa) \<mapsto> False)\<rparr>"
  have "addNewMeasurement pos (newTool P S img) = Inr (withGrid d u ?s')"
    unfolding addNewMeasurement_def
    using ng by (simp add: act all andThen_def cd sa(6) disable_unrefined[OF sh P0 S0 nf]
        newTool_def[of P S img, THEN arg_cong[of _ _ noOfPrimaryLinesDefault]])
  moreover have "wellFormed (withGrid d u ?s')"
    unfolding wellFormed_withGrid using sh assms S0 sa
    by (auto simp add: spacingOf_def sessionEnded_def split: option.splits)
  moreover have "d \<noteq> []" using sh P0 by (auto simp add: unrefined_lines)
  ultimately show ?thesis using sh by (intro exI[of _ "withGrid d u ?s'"]) simp
qed

section \<open>Sequences of mutator calls\<close>

text \<open>The mutator calls of a sequence, with their arguments. The numbers handed to
  \<^verbatim>\<open>rotateGrid\<close> and \<^verbatim>\<open>setOffset\<close> are finite.\<close>

datatype mutatorCall =
    SetNoOfPrimaryLines jsValue
  | SetNoOfSecondaryLines jsValue
  | SetShowRefinementPoints jsValue
  | SetSpacing jsValue
  | RotateGrid real
  | SetOffset "real \<times> real" bool
  | RemoveGrid

fun callMutator :: "mutatorCall \<Rightarrow> GridTool \<Rightarrow> outcome" where
  "callMutator (SetNoOfPrimaryLines v) s = set_noOfPrimaryLines v s"
| "callMutator (SetNoOfSecondaryLines v) s = set_noOfSecondaryLines v s"
| "callMutator (SetShowRefinementPoints v) s = set_showRefinementPoints v s"
| "callMutator (SetSpacing v) s = set_spacing v s"
| "callMutator (RotateGrid a) s = rotateGrid a s"
| "callMutator (SetOffset newLocation usingMouseInput) s = setOffset newLocation usingMouseInput s"
| "callMutator RemoveGrid s = Inr (removeGrid s)"

text \<open>The states after each call of a sequence, up to the first call that throws.\<close>

fun afterEachCall :: "mutatorCall list \<Rightarrow> GridTool \<Rightarrow> (abnormal \<times> GridTool) + GridTool list" where
  "afterEachCall [] s = Inr []"
| "afterEachCall (c # cs) s =
     (case callMutator c s of
        Inl e \<Rightarrow> Inl e
      | Inr s' \<Rightarrow> (case afterEachCall cs s' of Inl e \<Rightarrow> Inl e | Inr ss \<Rightarrow> Inr (s' # ss)))"

text \<open>A call whose argument has the type its setter checks for.\<close>

fun wellTyped :: "mutatorCall \<Rightarrow> bool" where
  "wellTyped (SetNoOfPrimaryLines v) = typeofNumber v"
| "wellTyped (SetNoOfSecondaryLines v) = typeofNumber v"
| "wellTyped (SetShowRefinementPoints v) = typeofBoolean v"
| "wellTyped (SetSpacing v) = typeofNumber v"
| "wellTyped (RotateGrid a) = True"
| "wellTyped (SetOffset newLocation usingMouseInput) = True"
| "wellTyped RemoveGrid = True"

text \<open>I7 between two states: a main line that is there before and after (the \<open>k\<close>-th one)
  has the same uuid, and so has every line, main or subsidiary, at the same index, where
  the refinement flag is the same.\<close>

definition samePrefix :: "'a list \<Rightarrow> 'a list \<Rightarrow> bool" where
  "samePrefix a b = (take (length b) a = take (length a) b)"

definition uuidStable :: "GridTool \<Rightarrow> GridTool \<Rightarrow> bool" where
  "uuidStable s s' =
     (samePrefix (mainUuids (dataOf s)) (mainUuids (dataOf s')) \<and>
      (showRefinementPointsGlobal s' = showRefinementPointsGlobal s \<longrightarrow>
         samePrefix (map uuid (dataOf s)) (map uuid (dataOf s'))))"

lemma samePrefix_simps [simp]:
  "samePrefix a a" "samePrefix a (a @ c)" "samePrefix (a @ c) a" "samePrefix a []" "samePrefix [] a"
  by (simp_all add: samePrefix_def)

lemma uuidStable_refl [simp]: "uuidStable s s"
  by (simp add: uuidStable_def)

lemma mainUuids_deactivate [simp]: "mainUuids (deactivate i d) = mainUuids d"
  by (rule mainUuids_cong) simp_all

lemma deactivate_Nil [simp]: "(deactivate i d = []) = (d = [])"
  using deactivate_keeps(3)[of i d] by (metis length_0_conv)

lemma mainUuids_take: "\<exists>c. mainUuids d = mainUuids (take m d) @ c"
  using mainUuids_append[of "take m d" "drop m d"] by auto

lemma uuids_take: "\<exists>c. map uuid d = map uuid (take m d) @ c"
  using map_append[of uuid "take m d" "drop m d"] by (metis append_take_drop_id)

lemma wellFormed_parts:
  assumes "wellFormed s" "dataOf s \<noteq> []"
  obtains N n where "2 \<le> N" "2 \<le> n" "gridShape (showRefinementPointsGlobal s) N n (dataOf s)"
    "showRefinementPointsFor s (currentImageId s) = Some (showRefinementPointsGlobal s)"
    "currentTool s = 0" "currentHandle s = 0" "spacingOf s \<noteq> 0" "noOfSecondaryLinesDefault s \<noteq> 0"
    "withGrid (dataOf s) (uuidSupply s) s = s"
  using assms wellFormed_form[OF assms(1)] unfolding wellFormed_def by blast

lemma wellFormed_after_session:
  assumes "spacingOf s \<noteq> 0" "noOfSecondaryLinesDefault s \<noteq> 0"
    and "gridShape (showRefinementPointsGlobal s) N n d" "2 \<le> N" "2 \<le> n"
    and "showRefinementPointsFor s (currentImageId s) = Some (showRefinementPointsGlobal s)"
  shows "wellFormed (withGrid (deactivate i d) u (sessionEnded (sessionStarted k s)))"
proof -
  have "gridShape (showRefinementPointsGlobal s) N n (deactivate i d)"
    by (rule gridShape_uuid_free[OF assms(3)]) simp
  then have "\<exists>N n. 2 \<le> N \<and> 2 \<le> n \<and> gridShape (showRefinementPointsGlobal s) N n (deactivate i d)"
    using assms(4,5) by blast
  then show ?thesis
    unfolding wellFormed_withGrid using assms(1,2,6) by simp
qed

lemma uuidStable_withGrid:
  "uuidStable (withGrid d u s) (withGrid d' u' s') =
     (samePrefix (mainUuids d) (mainUuids d') \<and>
      (showRefinementPointsGlobal s' = showRefinementPointsGlobal s \<longrightarrow>
         samePrefix (map uuid d) (map uuid d')))"
  by (simp add: uuidStable_def)

lemma ceiling_count:
  fixes r :: real
  assumes "2 \<le> r" "r < real N"
  shows "0 < nat \<lceil>real N - r\<rceil>" "nat \<lceil>real N - r\<rceil> \<le> N - 2"
proof -
  have "0 < \<lceil>real N - r\<rceil>" using assms(2) by simp
  then show "0 < nat \<lceil>real N - r\<rceil>" by simp
  have "real N - r \<le> real_of_int (int N - 2)" using assms(1) by simp
  then have "\<lceil>real N - r\<rceil> \<le> int N - 2" by (simp only: ceiling_le_iff)
  then show "nat \<lceil>real N - r\<rceil> \<le> N - 2" by arith
qed

lemma take_shape:
  assumes "gridShape g N n d" "k < N"
  shows "gridShape g (N - k) n (take (length d - k * (if g then 4 else 1)) d)"
proof (cases g)
  case True
  have l: "length d = Suc (4 * (N - 1))" using assms(1) True by (simp add: refined_lines(1))
  have "commonFlags (take (Suc (4 * (N - 1)) - 4 * k) d) = refinedFlags (N - k) n"
    using assms(1) True take_refinedFlags[OF assms(2), of n]
    by (simp add: gridShape_def commonFlags_def take_map[symmetric])
  then show ?thesis using True l by (simp add: gridShape_def mult.commute)
next
  case False
  then show ?thesis using assms by (auto simp add: unrefined_lines dest: in_set_takeD)
qed

lemma set_noOfPrimaryLines_step:
  assumes "wellFormed s" "dataOf s \<noteq> []" "typeofNumber v"
  shows "\<exists>s'. set_noOfPrimaryLines v s = Inr s' \<and> wellFormed s' \<and> dataOf s' \<noteq> [] \<and> uuidStable s s'"
proof -
  from wellFormed_parts[OF assms(1,2)] obtain N n where
    N: "2 \<le> N" and n: "2 \<le> n" and sh: "gridShape (showRefinementPointsGlobal s) N n (dataOf s)"
    and fr: "showRefinementPointsFor s (currentImageId s) = Some (showRefinementPointsGlobal s)"
    and sp: "spacingOf s \<noteq> 0" and sd: "noOfSecondaryLinesDefault s \<noteq> 0"
    and form: "withGrid (dataOf s) (uuidSupply s) s = s" by blast
  define d where "d = dataOf s"
  define u where "u = uuidSupply s"
  let ?g = "showRefinementPointsGlobal s"
  let ?s1 = "sessionStarted (length d) s"
  have e: "withGrid d u s = s" using form by (simp add: d_def u_def)
  have ne: "d \<noteq> []" using assms(2) by (simp add: d_def)
  have shd: "gridShape ?g N n d" using sh by (simp add: d_def)
  have n0: "0 < n" and N0: "0 < N" using n N by simp_all
  have cnt: "noOfPrimaryLines (withGrid d u s) = Inr (Some N)"
    using ne shape_noOfPrimaryLinesOf[OF shd n0 N0] by (simp add: noOfPrimaryLines_def)
  have same: "wellFormed s \<and> dataOf s \<noteq> [] \<and> uuidStable s s" using assms by simp
  show ?thesis
  proof (cases v)
    case (JSNumber r)
    show ?thesis
    proof (cases "r < 2 \<or> r = real N")
      case True
      then have "set_noOfPrimaryLines v (withGrid d u s) = Inr (withGrid d u s)"
        unfolding JSNumber by (auto simp add: set_noOfPrimaryLines_def cnt)
      then have "set_noOfPrimaryLines v s = Inr s" unfolding e .
      with same show ?thesis by blast
    next
      case False
      then have r: "2 \<le> r" "r \<noteq> real N" by simp_all
      show ?thesis
      proof (cases "r > real N")
        case True
        have sh1: "gridShape (showRefinementPointsGlobal ?s1) N n d" using shd by simp
        from repeat_addPrimaryLine[OF n0 sh1 N0, of "nat \<lceil>r - real N\<rceil>" N u] obtain ext u' where
          rp: "repeatBody (nat \<lceil>r - real N\<rceil>) addPrimaryLine N (withGrid d u ?s1) =
                 Inr (withGrid (d @ ext) u' ?s1)"
          and sh2: "gridShape ?g (N + nat \<lceil>r - real N\<rceil>) n (d @ ext)" by auto
        let ?d' = "deactivate (int (length d) - 1) (d @ ext)"
        let ?s' = "withGrid ?d' u' (sessionEnded ?s1)"
        have cd: "completeDrawing (withGrid (d @ ext) u' ?s1) = Inr ?s'"
          using completeDrawing_withGrid[of ?s1 "d @ ext" u'] by simp
        have "set_noOfPrimaryLines v (withGrid d u s) = Inr ?s'"
          unfolding JSNumber set_noOfPrimaryLines_def
          using r True ne by (simp add: cnt activateDraw_withGrid rp andThen_def cd)
        then have a: "set_noOfPrimaryLines v s = Inr ?s'" unfolding e .
        have b: "wellFormed ?s'"
          by (rule wellFormed_after_session[OF sp sd sh2 _ n fr]) (use N in simp)
        have "uuidStable (withGrid d u s) ?s'"
          by (simp add: uuidStable_withGrid mainUuids_append)
        then have c: "uuidStable s ?s'" unfolding e .
        have "dataOf ?s' \<noteq> []" using ne by simp
        with a b c show ?thesis by blast
      next
        case False
        with r have lt: "r < real N" by simp
        define k where "k = nat \<lceil>real N - r\<rceil>"
        have k: "0 < k" "k \<le> N - 2" using ceiling_count[OF r(1) lt] by (simp_all add: k_def)
        let ?c = "if ?g then 4 else (1::nat)"
        have len: "length d = (if ?g then Suc (4 * (N - 1)) else N)" by (rule shape_length[OF shd])
        have kc: "k * (if showRefinementPointsGlobal ?s1 then 4 else 1) < length d"
          using k N len by (auto split: if_splits)
        let ?dt = "take (length d - k * ?c) d"
        have rp: "repeatBody k (\<lambda>existing. removeLastPrimaryLine) N (withGrid d u ?s1) =
                    Inr (withGrid ?dt u ?s1)"
          using repeat_removeLastPrimaryLine[OF kc, of N u] by simp
        have kN: "k < N" using k N by simp
        have sh2: "gridShape ?g (N - k) n ?dt" by (rule take_shape[OF shd kN])
        let ?d' = "deactivate (int (length d) - 1) ?dt"
        let ?s' = "withGrid ?d' u (sessionEnded ?s1)"
        have cd: "completeDrawing (withGrid ?dt u ?s1) = Inr ?s'"
          using completeDrawing_withGrid[of ?s1 ?dt u] by simp
        have "set_noOfPrimaryLines v (withGrid d u s) = Inr ?s'"
          unfolding JSNumber set_noOfPrimaryLines_def
          using r lt ne by (simp add: cnt activateDraw_withGrid k_def[symmetric] rp andThen_def cd)
        then have a: "set_noOfPrimaryLines v s = Inr ?s'" unfolding e .
        have b: "wellFormed ?s'"
          by (rule wellFormed_after_session[OF sp sd sh2 _ n fr]) (use k N in simp)
        obtain c1 c2 where "mainUuids d = mainUuids ?dt @ c1" "map uuid d = map uuid ?dt @ c2"
          using mainUuids_take[of d] uuids_take[of d] by blast
        then have "uuidStable (withGrid d u s) ?s'"
          by (simp add: uuidStable_withGrid)
        then have c: "uuidStable s ?s'" unfolding e .
        have "length d - k * ?c \<noteq> 0" using kc by simp
        then have "?dt \<noteq> []" using ne by (simp only: take_eq_Nil) simp
        then have "dataOf ?s' \<noteq> []" by simp
        with a b c show ?thesis by blast
      qed
    qed
  next
    case JSNaN
    then have "set_noOfPrimaryLines v s = Inr s" by (simp add: set_noOfPrimaryLines_def)
    with same show ?thesis by blast
  qed (use assms(3) in \<open>simp_all add: typeofNumber_def\<close>)
qed

lemma set_noOfSecondaryLines_step:
  assumes "wellFormed s" "dataOf s \<noteq> []" "typeofNumber v"
  shows "\<exists>s'. set_noOfSecondaryLines v s = Inr s' \<and> wellFormed s' \<and> dataOf s' \<noteq> [] \<and> uuidStable s s'"
proof -
  from wellFormed_parts[OF assms(1,2)] obtain N n where
    N: "2 \<le> N" and n: "2 \<le> n" and sh: "gridShape (showRefinementPointsGlobal s) N n (dataOf s)"
    and fr: "showRefinementPointsFor s (currentImageId s) = Some (showRefinementPointsGlobal s)"
    and sp: "spacingOf s \<noteq> 0" and sd: "noOfSecondaryLinesDefault s \<noteq> 0"
    and form: "withGrid (dataOf s) (uuidSupply s) s = s" by blast
  define d where "d = dataOf s"
  define u where "u = uuidSupply s"
  let ?g = "showRefinementPointsGlobal s"
  let ?s1 = "sessionStarted (length d) s"
  have e: "withGrid d u s = s" using form by (simp add: d_def u_def)
  have ne: "d \<noteq> []" using assms(2) by (simp add: d_def)
  have shd: "gridShape ?g N n d" using sh by (simp add: d_def)
  have n0: "0 < n" and N0: "0 < N" using n N by simp_all
  have sh1: "gridShape (showRefinementPointsGlobal ?s1) N n d" using shd by simp
  have cnt: "noOfSecondaryLines (withGrid d u s) = Inr (Some n)"
    using ne shape_noOfSecondaryLinesOf[OF shd n0 ne] by (simp add: noOfSecondaryLines_def)
  have same: "wellFormed s \<and> dataOf s \<noteq> [] \<and> uuidStable s s" using assms by simp
  have fin: "\<exists>s'. set_noOfSecondaryLines v s = Inr s' \<and> wellFormed s' \<and> dataOf s' \<noteq> [] \<and> uuidStable s s'"
    if call: "set_noOfSecondaryLines v (withGrid d u s) =
                Inr (withGrid (deactivate (int (length d) - 1) d') u (sessionEnded ?s1))"
      and sh2: "gridShape ?g N n' d'" and n': "2 \<le> n'" and uu: "map uuid d' = map uuid d"
    for d' n'
  proof -
    let ?s' = "withGrid (deactivate (int (length d) - 1) d') u (sessionEnded ?s1)"
    have a: "set_noOfSecondaryLines v s = Inr ?s'" using call unfolding e .
    have b: "wellFormed ?s'" by (rule wellFormed_after_session[OF sp sd sh2 N n' fr])
    have n'0: "0 < n'" using n' by simp
    have "mainUuids d' = mainUuids d" by (rule mainUuids_shape[OF shd sh2 n0 n'0 uu])
    then have "uuidStable (withGrid d u s) ?s'" using uu by (simp add: uuidStable_withGrid)
    then have c: "uuidStable s ?s'" unfolding e .
    have "d' \<noteq> []" using uu ne by auto
    then have "dataOf ?s' \<noteq> []" by simp
    with a b c show ?thesis by blast
  qed
  show ?thesis
  proof (cases v)
    case (JSNumber r)
    show ?thesis
    proof (cases "r < 2 \<or> r = real n")
      case True
      then have "set_noOfSecondaryLines v (withGrid d u s) = Inr (withGrid d u s)"
        unfolding JSNumber by (auto simp add: set_noOfSecondaryLines_def cnt)
      then have "set_noOfSecondaryLines v s = Inr s" unfolding e .
      with same show ?thesis by blast
    next
      case False
      then have r: "2 \<le> r" "r \<noteq> real n" by simp_all
      show ?thesis
      proof (cases "r > real n")
        case True
        define k where "k = nat \<lceil>r - real n\<rceil>"
        from repeat_addSecondaryLine[OF N0 sh1 n0, of k u] obtain d' where
          rp: "repeatBody k addSecondaryLine n (withGrid d u ?s1) = Inr (withGrid d' u ?s1)"
          and sh2: "gridShape ?g N (n + k) d'" and uu: "map uuid d' = map uuid d" by auto
        have cd: "completeDrawing (withGrid d' u ?s1) =
                  Inr (withGrid (deactivate (int (length d) - 1) d') u (sessionEnded ?s1))"
          using completeDrawing_withGrid[of ?s1 d' u] by simp
        have call: "set_noOfSecondaryLines v (withGrid d u s) =
                Inr (withGrid (deactivate (int (length d) - 1) d') u (sessionEnded ?s1))"
          unfolding JSNumber set_noOfSecondaryLines_def
          using r True ne by (simp add: cnt activateDraw_withGrid k_def[symmetric] rp andThen_def cd)
        show ?thesis by (rule fin[OF call sh2 _ uu]) (use n in simp)
      next
        case False
        with r have lt: "r < real n" by simp
        define k where "k = nat \<lceil>real n - r\<rceil>"
        have k: "0 < k" "k \<le> n - 2" using ceiling_count[OF r(1) lt] by (simp_all add: k_def)
        have kn: "k < n" using k n by simp
        from repeat_removeLastSecondaryLine[OF N0 sh1 kn, of n u] obtain d' where
          rp: "repeatBody k (\<lambda>existing. removeLastSecondaryLine) n (withGrid d u ?s1) =
                 Inr (withGrid d' u ?s1)"
          and sh2: "gridShape ?g N (n - k) d'" and uu: "map uuid d' = map uuid d" by auto
        have cd: "completeDrawing (withGrid d' u ?s1) =
                  Inr (withGrid (deactivate (int (length d) - 1) d') u (sessionEnded ?s1))"
          using completeDrawing_withGrid[of ?s1 d' u] by simp
        have call: "set_noOfSecondaryLines v (withGrid d u s) =
                Inr (withGrid (deactivate (int (length d) - 1) d') u (sessionEnded ?s1))"
          unfolding JSNumber set_noOfSecondaryLines_def
          using r lt ne by (simp add: cnt activateDraw_withGrid k_def[symmetric] rp andThen_def cd)
        show ?thesis by (rule fin[OF call sh2 _ uu]) (use k n in simp)
      qed
    qed
  next
    case JSNaN
    then have "set_noOfSecondaryLines v s = Inr s" by (simp add: set_noOfSecondaryLines_def)
    with same show ?thesis by blast
  qed (use assms(3) in \<open>simp_all add: typeofNumber_def\<close>)
qed

lemma set_showRefinementPoints_step:
  assumes "wellFormed s" "dataOf s \<noteq> []" "typeofBoolean v"
  shows "\<exists>s'. set_showRefinementPoints v s = Inr s' \<and> wellFormed s' \<and> dataOf s' \<noteq> [] \<and> uuidStable s s'"
proof -
  from wellFormed_parts[OF assms(1,2)] obtain N n where
    N: "2 \<le> N" and n: "2 \<le> n" and sh: "gridShape (showRefinementPointsGlobal s) N n (dataOf s)"
    and fr: "showRefinementPointsFor s (currentImageId s) = Some (showRefinementPointsGlobal s)"
    and ct: "currentTool s = 0" and ch: "currentHandle s = 0"
    and sp: "spacingOf s \<noteq> 0" and sd: "noOfSecondaryLinesDefault s \<noteq> 0"
    and form: "withGrid (dataOf s) (uuidSupply s) s = s" by blast
  define d where "d = dataOf s"
  define u where "u = uuidSupply s"
  let ?g = "showRefinementPointsGlobal s"
  have e: "withGrid d u s = s" using form by (simp add: d_def u_def)
  have ne: "d \<noteq> []" using assms(2) by (simp add: d_def)
  have shd: "gridShape ?g N n d" using sh by (simp add: d_def)
  have n0: "0 < n" and N0: "0 < N" using n N by simp_all
  from assms(3) obtain b where v: "v = JSBoolean b" by (cases v) (simp_all add: typeofBoolean_def)
  let ?t = "\<lambda>b. s\<lparr>showRefinementPointsGlobal := b,
                 showRefinementPointsFor := (showRefinementPointsFor s)(currentImageId s \<mapsto> b)\<rparr>"
  have spt: "spacingOf (?t b') = spacingOf s" for b'
    by (simp add: spacingOf_def split: option.splits)
  have fin: "\<exists>s'. set_showRefinementPoints v s = Inr s' \<and> wellFormed s' \<and> dataOf s' \<noteq> [] \<and>
                 uuidStable s s'"
    if call: "set_showRefinementPoints v (withGrid d u s) = Inr (withGrid d' u' (?t b))"
      and sh2: "gridShape b N n d'" and mu: "mainUuids d' = mainUuids d" and bg: "b \<noteq> ?g"
    for d' u'
  proof -
    let ?s' = "withGrid d' u' (?t b)"
    have a: "set_showRefinementPoints v s = Inr ?s'" using call unfolding e .
    have "\<exists>N n. 2 \<le> N \<and> 2 \<le> n \<and> gridShape b N n d'" using sh2 N n by blast
    then have w: "wellFormed ?s'"
      unfolding wellFormed_withGrid using ct ch sp sd by (simp add: spt)
    have "uuidStable (withGrid d u s) ?s'" using mu bg by (simp add: uuidStable_withGrid)
    then have c: "uuidStable s ?s'" unfolding e .
    have "length d' \<noteq> 0" using shape_length[OF sh2] N by (simp split: if_splits)
    then have "d' \<noteq> []" by (simp only: length_0_conv not_False_eq_True)
    then have "dataOf ?s' \<noteq> []" by simp
    with a w c show ?thesis by blast
  qed
  show ?thesis
  proof (cases "b = ?g")
    case True
    then have "set_showRefinementPoints v s = Inr s"
      using fr by (simp add: v set_showRefinementPoints_def)
    with assms show ?thesis by (intro exI[of _ s]) simp
  next
    case False
    show ?thesis
    proof (cases b)
      case True
      with False have g: "\<not> ?g" by simp
      have nf: "showRefinementPointsFor s (currentImageId s) \<noteq> Some True" using fr g by simp
      from enable_refinement_shape[OF _ N0 n0 nf, of d u] shd g obtain d' u' where
        "set_showRefinementPoints (JSBoolean True) (withGrid d u s) = Inr (withGrid d' u' (?t True))"
        "gridShape True N n d'" "mainUuids d' = mainUuids d" by auto
      with True v show ?thesis by (intro fin[of d' u']) (use False in simp_all)
    next
      case b: False
      with False have g: "?g" by simp
      have nf: "showRefinementPointsFor s (currentImageId s) \<noteq> Some False" using fr g by simp
      from disable_refinement_shape[OF _ N0 n0 nf, of d u] shd g obtain d' where
        "set_showRefinementPoints (JSBoolean False) (withGrid d u s) = Inr (withGrid d' u (?t False))"
        "gridShape False N n d'" "mainUuids d' = mainUuids d" by auto
      with b v show ?thesis by (intro fin[of d' u]) (use False in simp_all)
    qed
  qed
qed

lemma wellFormed_same_lines:
  assumes "wellFormed s" "dataOf s \<noteq> []"
    and "commonFlags d' = commonFlags (dataOf s)" "map uuid d' = map uuid (dataOf s)"
    and "currentTool s' = 0" "currentHandle s' = 0" "spacingOf s' \<noteq> 0"
    and "noOfSecondaryLinesDefault s' = noOfSecondaryLinesDefault s"
    and "showRefinementPointsGlobal s' = showRefinementPointsGlobal s"
    and "showRefinementPointsFor s' = showRefinementPointsFor s" "currentImageId s' = currentImageId s"
  shows "wellFormed (withGrid d' u' s') \<and> dataOf (withGrid d' u' s') \<noteq> [] \<and>
         uuidStable s (withGrid d' u' s')"
proof -
  from wellFormed_parts[OF assms(1,2)] obtain N n where
    N: "2 \<le> N" and n: "2 \<le> n" and sh: "gridShape (showRefinementPointsGlobal s) N n (dataOf s)"
    and fr: "showRefinementPointsFor s (currentImageId s) = Some (showRefinementPointsGlobal s)"
    and sd: "noOfSecondaryLinesDefault s \<noteq> 0"
    and form: "withGrid (dataOf s) (uuidSupply s) s = s" by blast
  have sh': "gridShape (showRefinementPointsGlobal s) N n d'"
    by (rule gridShape_uuid_free[OF sh assms(3)])
  then have "\<exists>N n. 2 \<le> N \<and> 2 \<le> n \<and> gridShape (showRefinementPointsGlobal s) N n d'"
    using N n by blast
  then have w: "wellFormed (withGrid d' u' s')"
    unfolding wellFormed_withGrid using assms(5-11) sd fr by simp
  have "mainUuids d' = mainUuids (dataOf s)" by (rule mainUuids_cong[OF assms(4,3)])
  then have "uuidStable (withGrid (dataOf s) (uuidSupply s) s) (withGrid d' u' s')"
    using assms(4) by (simp add: uuidStable_withGrid)
  then have c: "uuidStable s (withGrid d' u' s')" unfolding form .
  have "length d' = length (dataOf s)" by (rule map_eq_imp_length_eq[OF assms(4)])
  then have "d' \<noteq> []" using assms(2) by auto
  with w c show ?thesis by simp
qed

lemma set_spacing_step:
  assumes "wellFormed s" "dataOf s \<noteq> []" "typeofNumber v"
  shows "\<exists>s'. set_spacing v s = Inr s' \<and> wellFormed s' \<and> dataOf s' \<noteq> [] \<and> uuidStable s s'"
proof -
  from wellFormed_parts[OF assms(1,2)] obtain N n where
    N: "2 \<le> N" and n: "2 \<le> n" and sh: "gridShape (showRefinementPointsGlobal s) N n (dataOf s)"
    and sp: "spacingOf s \<noteq> 0"
    and form: "withGrid (dataOf s) (uuidSupply s) s = s" by blast
  have same: "wellFormed s \<and> dataOf s \<noteq> [] \<and> uuidStable s s" using assms by simp
  show ?thesis
  proof (cases v)
    case (JSNumber r)
    show ?thesis
    proof (cases "r < 1")
      case True
      then have "set_spacing v s = Inr s" by (simp add: JSNumber set_spacing_def)
      with same show ?thesis by blast
    next
      case False
      have n1: "1 < n" and N1: "1 < N" using n N by simp_all
      let ?s' = "sessionEnded ((sessionStarted (length (dataOf s)) s)
                       \<lparr>spacingFor := (spacingFor s)(currentImageId s \<mapsto> r)\<rparr>)"
      from onSpacingChange_keeps[OF sh n1 N1 sp, of r "uuidSupply s"] obtain d' where
        o: "onSpacingChange r (withGrid (dataOf s) (uuidSupply s) s) =
              Inr (withGrid d' (uuidSupply s) ?s')"
        and k: "commonFlags d' = commonFlags (dataOf s)" "map uuid d' = map uuid (dataOf s)" by blast
      have a: "set_spacing v s = Inr (withGrid d' (uuidSupply s) ?s')"
        using o False unfolding form by (simp add: JSNumber set_spacing_def)
      have sps: "spacingOf ?s' = r"
        by (simp add: spacingOf_def sessionEnded_def sessionStarted_def)
      have "wellFormed (withGrid d' (uuidSupply s) ?s') \<and> dataOf (withGrid d' (uuidSupply s) ?s') \<noteq> [] \<and>
         uuidStable s (withGrid d' (uuidSupply s) ?s')"
        by (rule wellFormed_same_lines[OF assms(1,2) k])
           (use False sps in \<open>simp_all add: sessionEnded_def sessionStarted_def\<close>)
      with a show ?thesis by blast
    qed
  next
    case JSNaN
    then have "set_spacing v s = Inr s" by (simp add: set_spacing_def)
    with same show ?thesis by blast
  qed (use assms(3) in \<open>simp_all add: typeofNumber_def\<close>)
qed

lemma rotateGrid_step:
  assumes "wellFormed s" "dataOf s \<noteq> []"
  shows "\<exists>s'. rotateGrid a s = Inr s' \<and> wellFormed s' \<and> dataOf s' \<noteq> [] \<and> uuidStable s s'"
proof -
  from wellFormed_parts[OF assms(1,2)] obtain N n where
    N: "2 \<le> N" and n: "2 \<le> n" and sh: "gridShape (showRefinementPointsGlobal s) N n (dataOf s)"
    and sp: "spacingOf s \<noteq> 0"
    and form: "withGrid (dataOf s) (uuidSupply s) s = s" by blast
  let ?d = "dataOf s"
  have n0: "0 < n" using n by simp
  have pne: "\<forall>l \<in> set ?d. points l \<noteq> []" by (rule shape_nonempty_lines[OF sh n0])
  then have hl: "points (hd ?d) \<noteq> []" "points (last ?d) \<noteq> []" using assms(2) by simp_all
  let ?d' = "deactivate (int (length ?d) - 1) (mapPoints (rotatePoint a (middleOf ?d)) ?d)"
  let ?s' = "sessionEnded (sessionStarted (length ?d) s)"
  have "rotateGrid a (withGrid ?d (uuidSupply s) s) = Inr (withGrid ?d' (uuidSupply s) ?s')"
    by (rule rotateGrid_withGrid[OF assms(2) hl])
  then have r: "rotateGrid a s = Inr (withGrid ?d' (uuidSupply s) ?s')" unfolding form .
  have "wellFormed (withGrid ?d' (uuidSupply s) ?s') \<and> dataOf (withGrid ?d' (uuidSupply s) ?s') \<noteq> [] \<and>
         uuidStable s (withGrid ?d' (uuidSupply s) ?s')"
    by (rule wellFormed_same_lines[OF assms(1,2)]) (use sp in \<open>simp_all add: mapPoints_keeps\<close>)
  with r show ?thesis by blast
qed

lemma setOffset_step:
  assumes "wellFormed s" "dataOf s \<noteq> []"
  shows "\<exists>s'. setOffset pos mouse s = Inr s' \<and> wellFormed s' \<and> dataOf s' \<noteq> [] \<and> uuidStable s s'"
proof -
  from wellFormed_parts[OF assms(1,2)] obtain N n where
    N: "2 \<le> N" and n: "2 \<le> n" and sh: "gridShape (showRefinementPointsGlobal s) N n (dataOf s)"
    and ct: "currentTool s = 0" and ch: "currentHandle s = 0" and sp: "spacingOf s \<noteq> 0"
    and form: "withGrid (dataOf s) (uuidSupply s) s = s" by blast
  let ?d = "dataOf s"
  have n0: "0 < n" using n by simp
  have pne: "\<forall>l \<in> set ?d. points l \<noteq> []" by (rule shape_nonempty_lines[OF sh n0])
  then have hl: "points (hd ?d) \<noteq> []" using assms(2) by simp
  from setOffset_withGrid[OF assms(2) hl ct ch, of pos mouse "uuidSupply s"] obtain f where
    f: "\<forall>p. isCommonPoint (f p) = isCommonPoint p"
    and o: "setOffset pos mouse (withGrid ?d (uuidSupply s) s) =
              Inr (withGrid (if fst pos < 0 \<or> snd pos < 0 then ?d else mapPoints f ?d) (uuidSupply s) s)"
    by blast
  let ?d' = "if fst pos < 0 \<or> snd pos < 0 then ?d else mapPoints f ?d"
  have r: "setOffset pos mouse s = Inr (withGrid ?d' (uuidSupply s) s)" using o unfolding form .
  have "wellFormed (withGrid ?d' (uuidSupply s) s) \<and> dataOf (withGrid ?d' (uuidSupply s) s) \<noteq> [] \<and>
         uuidStable s (withGrid ?d' (uuidSupply s) s)"
    by (rule wellFormed_same_lines[OF assms(1,2)]) (use sp ct ch f in \<open>simp_all add: mapPoints_keeps\<close>)
  with r show ?thesis by blast
qed

lemma removeGrid_step:
  assumes "wellFormed s"
  shows "wellFormed (removeGrid s) \<and> dataOf (removeGrid s) = [] \<and> uuidStable s (removeGrid s)"
proof -
  have form: "withGrid (dataOf s) (uuidSupply s) s = s" by (rule wellFormed_form[OF assms])
  from removeGrid_withGrid[of "dataOf s" "uuidSupply s" s] obtain s' where
    r: "removeGrid (withGrid (dataOf s) (uuidSupply s) s) = withGrid [] (uuidSupply s) s'"
    and f: "currentTool s' = currentTool s" "currentHandle s' = currentHandle s" "spacingOf s' = 5"
      "noOfSecondaryLinesDefault s' = noOfSecondaryLinesDefault s" by blast
  have r': "removeGrid s = withGrid [] (uuidSupply s) s'" using r unfolding form .
  have "wellFormed (withGrid [] (uuidSupply s) s')"
    unfolding wellFormed_withGrid using f assms by (simp add: wellFormed_def)
  moreover have "uuidStable s (withGrid [] (uuidSupply s) s')"
    by (simp add: uuidStable_def mainUuids_def)
  ultimately show ?thesis unfolding r' by simp
qed

text \<open>Every well-typed call on a grid that is there returns.\<close>

lemma call_on_grid:
  assumes "wellFormed s" "dataOf s \<noteq> []" "wellTyped c"
  shows "\<exists>s'. callMutator c s = Inr s' \<and> wellFormed s' \<and> uuidStable s s'"
proof (cases c)
  case (SetNoOfPrimaryLines v)
  with set_noOfPrimaryLines_step[OF assms(1,2), of v] assms(3) show ?thesis by auto
next
  case (SetNoOfSecondaryLines v)
  with set_noOfSecondaryLines_step[OF assms(1,2), of v] assms(3) show ?thesis by auto
next
  case (SetShowRefinementPoints v)
  with set_showRefinementPoints_step[OF assms(1,2), of v] assms(3) show ?thesis by auto
next
  case (SetSpacing v)
  with set_spacing_step[OF assms(1,2), of v] assms(3) show ?thesis by auto
next
  case (RotateGrid a)
  with rotateGrid_step[OF assms(1,2), of a] show ?thesis by auto
next
  case (SetOffset pos mouse)
  with setOffset_step[OF assms(1,2), of pos mouse] show ?thesis by auto
next
  case RemoveGrid
  with removeGrid_step[OF assms(1)] show ?thesis by auto
qed

text \<open>A call whose argument has the wrong type throws.\<close>

lemma ill_typed_call_throws: "\<not> wellTyped c \<Longrightarrow> \<exists>e. callMutator c s = Inl e"
proof (cases c)
  case (SetNoOfPrimaryLines v)
  then show "\<not> wellTyped c \<Longrightarrow> \<exists>e. callMutator c s = Inl e"
    by (cases v) (simp_all add: typeofNumber_def set_noOfPrimaryLines_def)
next
  case (SetNoOfSecondaryLines v)
  then show "\<not> wellTyped c \<Longrightarrow> \<exists>e. callMutator c s = Inl e"
    by (cases v) (simp_all add: typeofNumber_def set_noOfSecondaryLines_def)
next
  case (SetShowRefinementPoints v)
  then show "\<not> wellTyped c \<Longrightarrow> \<exists>e. callMutator c s = Inl e"
    by (cases v) (simp_all add: typeofBoolean_def set_showRefinementPoints_def)
next
  case (SetSpacing v)
  then show "\<not> wellTyped c \<Longrightarrow> \<exists>e. callMutator c s = Inl e"
    by (cases v) (simp_all add: typeofNumber_def set_spacing_def)
qed simp_all

text \<open>The calls on a grid that has been removed: the ones that return leave no lines.\<close>

lemma repeat_addSecondaryLine_empty:
  "repeatBody k addSecondaryLine e (withGrid [] u s) = Inr (withGrid [] u s)"
  by (induction k arbitrary: e)
     (simp_all add: addSecondaryLine_def generateSecondaryLine_def andThen_def)

lemma addPrimaryLine_empty_throws:
  "noOfSecondaryLinesDefault s \<noteq> 0 \<Longrightarrow> \<exists>x. addPrimaryLine e (withGrid [] u s) = Inl x"
  by (simp add: addPrimaryLine_def generateMainPrimaryLine_def andThen_def Let_def)

lemma call_without_grid:
  assumes "wellFormed s" "dataOf s = []" "callMutator c s = Inr s'"
  shows "wellFormed s' \<and> uuidStable s s'"
proof -
  define u where "u = uuidSupply s"
  have form: "withGrid [] u s = s" using wellFormed_form[OF assms(1)] assms(2) by (simp add: u_def)
  have f: "currentTool s = 0" "currentHandle s = 0" "spacingOf s \<noteq> 0" "noOfSecondaryLinesDefault s \<noteq> 0"
    using assms(1) by (simp_all add: wellFormed_def)
  have same: "wellFormed s \<and> uuidStable s s" using assms(1) by simp
  have empty: "wellFormed (withGrid [] u t) \<and> uuidStable s (withGrid [] u t)"
    if "currentTool t = 0" "currentHandle t = 0" "spacingOf t \<noteq> 0" "noOfSecondaryLinesDefault t \<noteq> 0"
    for t
    using that assms(2) by (simp add: wellFormed_withGrid uuidStable_def mainUuids_def)
  have call: "callMutator c (withGrid [] u s) = Inr s'" unfolding form by (rule assms(3))
  show ?thesis
  proof (cases c)
    case (SetNoOfPrimaryLines v)
    show ?thesis
    proof (cases v)
      case (JSNumber r)
      show ?thesis
      proof (cases "r < 2")
        case True
        with call SetNoOfPrimaryLines JSNumber have "s' = withGrid [] u s"
          by (simp add: set_noOfPrimaryLines_def)
        with same form show ?thesis by simp
      next
        case False
        then obtain k where k: "nat \<lceil>r\<rceil> = Suc k" by (cases "nat \<lceil>r\<rceil>") (auto simp add: not_less)
        from addPrimaryLine_empty_throws[OF _, of "s\<lparr>drawing := True\<rparr>" 0 u] f(4) obtain x where
          "addPrimaryLine 0 (withGrid [] u (s\<lparr>drawing := True\<rparr>)) = Inl x" by auto
        with call SetNoOfPrimaryLines JSNumber False k show ?thesis
          by (simp add: set_noOfPrimaryLines_def noOfPrimaryLines_def activateDraw_def andThen_def)
      qed
    next
      case JSNaN
      with call SetNoOfPrimaryLines have "s' = withGrid [] u s" by (simp add: set_noOfPrimaryLines_def)
      with same form show ?thesis by simp
    qed (use call SetNoOfPrimaryLines in \<open>simp_all add: set_noOfPrimaryLines_def\<close>)
  next
    case (SetNoOfSecondaryLines v)
    show ?thesis
    proof (cases v)
      case (JSNumber r)
      show ?thesis
      proof (cases "r < 2")
        case True
        with call SetNoOfSecondaryLines JSNumber have "s' = withGrid [] u s"
          by (simp add: set_noOfSecondaryLines_def)
        with same form show ?thesis by simp
      next
        case False
        let ?t = "s\<lparr>drawing := True\<rparr>"
        have cd: "completeDrawing (withGrid [] u ?t) = Inr (withGrid [] u (sessionEnded ?t))"
          using completeDrawing_withGrid[of ?t "[]" u] by (simp add: deactivate_def elemAt_def)
        from call SetNoOfSecondaryLines JSNumber False
        have "s' = withGrid [] u (sessionEnded ?t)"
          by (simp add: set_noOfSecondaryLines_def noOfSecondaryLines_def activateDraw_def andThen_def
              repeat_addSecondaryLine_empty cd)
        moreover have "spacingOf (sessionEnded ?t) = spacingOf s"
          by (simp add: spacingOf_def sessionEnded_def split: option.splits)
        ultimately show ?thesis using empty[of "sessionEnded ?t"] f by (simp add: sessionEnded_def)
      qed
    next
      case JSNaN
      with call SetNoOfSecondaryLines have "s' = withGrid [] u s" by (simp add: set_noOfSecondaryLines_def)
      with same form show ?thesis by simp
    qed (use call SetNoOfSecondaryLines in \<open>simp_all add: set_noOfSecondaryLines_def\<close>)
  next
    case (SetShowRefinementPoints v)
    show ?thesis
    proof (cases v)
      case (JSBoolean b)
      show ?thesis
      proof (cases "showRefinementPointsFor s (currentImageId s) = Some b")
        case True
        with call SetShowRefinementPoints JSBoolean have "s' = withGrid [] u s"
          by (simp add: set_showRefinementPoints_def)
        with same form show ?thesis by simp
      next
        case False
        let ?t = "s\<lparr>showRefinementPointsGlobal := b,
                 showRefinementPointsFor := (showRefinementPointsFor s)(currentImageId s \<mapsto> b)\<rparr>"
        from call SetShowRefinementPoints JSBoolean False
        have "s' = withGrid [] u ?t"
          by (cases b)
             (simp_all add: set_showRefinementPoints_def generateSubsidiaryPrimaryLines_def
                generateRefinementPointsOnCurrentPrimaryLines_def removeAllRefinementPoints_def
                andThen_def)
        moreover have "spacingOf ?t = spacingOf s"
          by (simp add: spacingOf_def split: option.splits)
        ultimately show ?thesis using empty[of ?t] f by simp
      qed
    qed (use call SetShowRefinementPoints in \<open>simp_all add: set_showRefinementPoints_def\<close>)
  next
    case (SetSpacing v)
    from call SetSpacing have "s' = withGrid [] u s"
      by (cases v) (simp_all add: set_spacing_def onSpacingChange_def split: if_splits)
    with same form show ?thesis by simp
  next
    case (RotateGrid a)
    with call have "s' = withGrid [] u s" by (simp add: rotateGrid_def)
    with same form show ?thesis by simp
  next
    case (SetOffset pos mouse)
    with call f have "s' = withGrid [] u s"
      by (simp add: setOffset_def elemAt_def Let_def split: if_splits)
    with same form show ?thesis by simp
  next
    case RemoveGrid
    with assms(3) removeGrid_step[OF assms(1)] show ?thesis by auto
  qed
qed

lemma call_returns:
  assumes "wellFormed s" "callMutator c s = Inr s'"
  shows "wellFormed s' \<and> uuidStable s s'"
proof (cases "dataOf s = []")
  case True
  then show ?thesis by (rule call_without_grid[OF assms(1) _ assms(2)])
next
  case False
  have "wellTyped c" using ill_typed_call_throws[of c s] assms(2) by auto
  from call_on_grid[OF assms(1) False this] assms(2) show ?thesis by auto
qed

lemma afterEachCall_wellFormed:
  "wellFormed s \<Longrightarrow> afterEachCall cs s = Inr ss \<Longrightarrow>
   list_all wellFormed ss \<and> successively uuidStable (s # ss) \<and> wellFormed (last (s # ss))"
proof (induction cs arbitrary: s ss)
  case Nil
  then show ?case by simp
next
  case (Cons c cs)
  from Cons.prems(2) obtain s' ss' where
    c: "callMutator c s = Inr s'" and r: "afterEachCall cs s' = Inr ss'" and ss: "ss = s' # ss'"
    by (auto split: sum.splits)
  from call_returns[OF Cons.prems(1) c] have w: "wellFormed s'" "uuidStable s s'" by simp_all
  from Cons.IH[OF w(1) r] w ss show ?case by simp
qed

section \<open>The structural invariants\<close>

text \<open>\<open>refinementEnabled\<close> is the getter \<^verbatim>\<open>showRefinementPoints\<close> read as a condition, and a
  line is a main line by its index. I1 to I6 are the invariants of the data model; I7 is
  \<open>uuidStable\<close>, between a state and the next. I3 is read as the statement of I2 for points: with
  refinement every fourth point of a main line is common and no other; without refinement
  every point is common.\<close>

definition refinementEnabled :: "GridTool \<Rightarrow> bool" where
  "refinementEnabled s = showRefinementPointsTruthy s"

definition isMainLine :: "GridTool \<Rightarrow> nat \<Rightarrow> bool" where
  "isMainLine s i = (refinementEnabled s \<longrightarrow> i mod 4 = 0)"

definition invariantI1 :: "GridTool \<Rightarrow> bool" where
  "invariantI1 s =
     (dataOf s = [] \<or> (2 \<le> length (dataOf s) \<and> (\<forall>l \<in> set (dataOf s). 2 \<le> length (points l))))"

definition invariantI2 :: "GridTool \<Rightarrow> bool" where
  "invariantI2 s =
     (\<forall>i < length (dataOf s).
        (firstIsCommon (dataOf s ! i) = Some True) = isMainLine s i \<and>
        (\<not> isMainLine s i \<longrightarrow> (\<forall>p \<in> set (points (dataOf s ! i)). \<not> isCommonPoint p)))"

definition invariantI3 :: "GridTool \<Rightarrow> bool" where
  "invariantI3 s =
     (\<forall>i < length (dataOf s). isMainLine s i \<longrightarrow>
        (\<forall>j < length (points (dataOf s ! i)).
           isCommonPoint (points (dataOf s ! i) ! j) = (refinementEnabled s \<longrightarrow> j mod 4 = 0)))"

definition invariantI4 :: "GridTool \<Rightarrow> bool" where
  "invariantI4 s =
     (dataOf s \<noteq> [] \<longrightarrow>
        (\<exists>k. noOfSecondaryLines s = Inr (Some k) \<and>
           (\<forall>i < length (dataOf s). isMainLine s i \<longrightarrow>
              length (filter isCommonPoint (points (dataOf s ! i))) = k)))"

definition invariantI5 :: "GridTool \<Rightarrow> bool" where
  "invariantI5 s =
     (dataOf s \<noteq> [] \<longrightarrow>
        noOfPrimaryLines s = Inr (Some (length (filter (isMainLine s) [0..<length (dataOf s)]))))"

definition invariantI6 :: "GridTool \<Rightarrow> bool" where
  "invariantI6 s =
     (\<forall>i < length (dataOf s). \<not> isMainLine s i \<longrightarrow>
        (\<forall>p \<in> set (points (dataOf s ! i)). \<not> isCommonPoint p) \<and>
        (\<exists>a < i. isMainLine s a) \<and> (\<exists>b. i < b \<and> b < length (dataOf s) \<and> isMainLine s b))"

definition structuralInvariants :: "GridTool \<Rightarrow> bool" where
  "structuralInvariants s =
     (invariantI1 s \<and> invariantI2 s \<and> invariantI3 s \<and> invariantI4 s \<and> invariantI5 s \<and> invariantI6 s)"

lemma flags_all:
  "map isCommonPoint ps = replicate n b \<Longrightarrow> p \<in> set ps \<Longrightarrow> isCommonPoint p = b"
proof -
  assume a: "map isCommonPoint ps = replicate n b" and p: "p \<in> set ps"
  from p have "isCommonPoint p \<in> set (map isCommonPoint ps)" by simp
  then show ?thesis unfolding a by simp
qed

lemma wellFormed_invariants:
  assumes "wellFormed s"
  shows "structuralInvariants s"
proof (cases "dataOf s = []")
  case True
  then show ?thesis
    by (simp add: structuralInvariants_def invariantI1_def invariantI2_def invariantI3_def
        invariantI4_def invariantI5_def invariantI6_def)
next
  case False
  from wellFormed_parts[OF assms False] obtain N n where
    N: "2 \<le> N" and n: "2 \<le> n" and sh: "gridShape (showRefinementPointsGlobal s) N n (dataOf s)"
    and form: "withGrid (dataOf s) (uuidSupply s) s = s" by blast
  define d where "d = dataOf s"
  define g where "g = showRefinementPointsGlobal s"
  have ne: "d \<noteq> []" using False by (simp add: d_def)
  have shd: "gridShape g N n d" using sh by (simp add: d_def g_def)
  have n0: "0 < n" and N0: "0 < N" using n N by simp_all
  have st: "showRefinementPointsTruthy s = g" "noGrid s = False" "handlesMissing s = False"
    using withGrid_state(7)[of d "uuidSupply s" s] withGrid_state(3)[of d "uuidSupply s" s]
      withGrid_state(4)[of d "uuidSupply s" s] ne form
    by (simp_all add: d_def g_def)
  have main: "isMainLine s i = (g \<longrightarrow> i mod 4 = 0)" for i
    by (simp add: isMainLine_def refinementEnabled_def st)
  have len: "length d = (if g then Suc (4 * (N - 1)) else N)" by (rule shape_length[OF shd])
  have fl: "map isCommonPoint (points (d ! i)) = lineFlags g n i" if "i < length d" for i
    using shd that by (simp add: gridShape_lines)
  have ll: "length (points (d ! i)) = (if g \<and> i mod 4 = 0 then Suc (4 * (n - 1)) else n)"
    if "i < length d" for i
    using shape_line_length[OF shd that] by (simp add: length_lineFlags)
  have sub: "\<forall>p \<in> set (points (d ! i)). \<not> isCommonPoint p" if "i < length d" "\<not> isMainLine s i" for i
  proof
    fix p assume p: "p \<in> set (points (d ! i))"
    have "map isCommonPoint (points (d ! i)) = replicate n False"
      using fl[OF that(1)] that(2) by (simp add: main lineFlags_def)
    from flags_all[OF this p] show "\<not> isCommonPoint p" by simp
  qed
  have i1: "invariantI1 s"
  proof -
    have "2 \<le> length d" using len N by (auto split: if_splits)
    moreover have "2 \<le> length (points l)" if "l \<in> set d" for l
    proof -
      from that obtain i where "i < length d" "l = d ! i" by (auto simp add: in_set_conv_nth)
      with ll[of i] n show ?thesis by (auto split: if_splits)
    qed
    ultimately show ?thesis by (simp add: invariantI1_def d_def)
  qed
  have i2: "invariantI2 s"
    unfolding invariantI2_def d_def[symmetric]
    using shape_mains(1)[OF shd n0] sub by (simp add: main)
  have i3: "invariantI3 s"
    unfolding invariantI3_def d_def[symmetric]
  proof (intro allI impI)
    fix i j assume i: "i < length d" and m: "isMainLine s i" and j: "j < length (points (d ! i))"
    have "isCommonPoint (points (d ! i) ! j) = map isCommonPoint (points (d ! i)) ! j"
      using j by simp
    also have "\<dots> = lineFlags g n i ! j" using fl[OF i] by simp
    also have "\<dots> = (g \<longrightarrow> j mod 4 = 0)"
      using m j ll[OF i] by (auto simp add: main lineFlags_def nth_mainFlags)
    finally show "isCommonPoint (points (d ! i) ! j) = (refinementEnabled s \<longrightarrow> j mod 4 = 0)"
      by (simp add: refinementEnabled_def st)
  qed
  have i4: "invariantI4 s"
  proof -
    have "noOfSecondaryLines s = Inr (Some n)"
      using shape_noOfSecondaryLinesOf[OF shd n0 ne] by (simp add: noOfSecondaryLines_def st d_def)
    moreover have "\<forall>i < length d. isMainLine s i \<longrightarrow> length (filter isCommonPoint (points (d ! i))) = n"
      using shape_mains(2)[OF shd n0] by (simp add: main)
    ultimately show ?thesis by (simp add: invariantI4_def d_def)
  qed
  have i5: "invariantI5 s"
  proof -
    have "noOfPrimaryLines s = Inr (Some N)"
      using shape_noOfPrimaryLinesOf[OF shd n0 N0] by (simp add: noOfPrimaryLines_def st d_def)
    moreover have "length (filter (isMainLine s) [0..<length d]) = N"
    proof (cases g)
      case True
      obtain M where M: "N = Suc M" using N0 by (cases N) auto
      have "filter (isMainLine s) [0..<length d] = filter (\<lambda>i. i mod 4 = 0) [0..<Suc (4 * M)]"
        using True len M by (simp add: main[abs_def] del: upt_Suc)
      then show ?thesis using count_fourth[of M] M by simp
    next
      case False
      then show ?thesis using len by (simp add: main[abs_def])
    qed
    ultimately show ?thesis by (simp add: invariantI5_def d_def)
  qed
  have i6: "invariantI6 s"
    unfolding invariantI6_def d_def[symmetric]
  proof (intro allI impI conjI)
    fix i assume i: "i < length d" and m: "\<not> isMainLine s i"
    show "\<forall>p \<in> set (points (d ! i)). \<not> isCommonPoint p" by (rule sub[OF i m])
    from m have g: g and i4: "i mod 4 \<noteq> 0" by (simp_all add: main)
    then have "0 < i" by (cases i) simp_all
    then show "\<exists>a < i. isMainLine s a" by (intro exI[of _ 0]) (simp add: main)
    have l: "length d = Suc (4 * (N - 1))" using len g by simp
    have "i \<noteq> 4 * (N - 1)" using i4 by auto
    with i l have "i < 4 * (N - 1)" by simp
    then show "\<exists>b. i < b \<and> b < length d \<and> isMainLine s b"
      using l by (intro exI[of _ "4 * (N - 1)"]) (simp add: main)
  qed
  from i1 i2 i3 i4 i5 i6 show ?thesis by (simp add: structuralInvariants_def)
qed

lemma list_all_invariants: "list_all wellFormed ss \<Longrightarrow> list_all structuralInvariants ss"
  by (induction ss) (simp_all add: wellFormed_invariants)

text \<open>A sequence of well-typed calls on a grid that is there returns, \<^verbatim>\<open>removeGrid\<close>
  being at most its last call.\<close>

lemma call_keeps_grid:
  assumes "wellFormed s" "dataOf s \<noteq> []" "wellTyped c" "c \<noteq> RemoveGrid"
  shows "\<exists>s'. callMutator c s = Inr s' \<and> wellFormed s' \<and> dataOf s' \<noteq> []"
proof (cases c)
  case (SetNoOfPrimaryLines v)
  with set_noOfPrimaryLines_step[OF assms(1,2), of v] assms(3) show ?thesis by auto
next
  case (SetNoOfSecondaryLines v)
  with set_noOfSecondaryLines_step[OF assms(1,2), of v] assms(3) show ?thesis by auto
next
  case (SetShowRefinementPoints v)
  with set_showRefinementPoints_step[OF assms(1,2), of v] assms(3) show ?thesis by auto
next
  case (SetSpacing v)
  with set_spacing_step[OF assms(1,2), of v] assms(3) show ?thesis by auto
next
  case (RotateGrid a)
  with rotateGrid_step[OF assms(1,2), of a] show ?thesis by auto
next
  case (SetOffset pos mouse)
  with setOffset_step[OF assms(1,2), of pos mouse] show ?thesis by auto
next
  case RemoveGrid
  with assms(4) show ?thesis by simp
qed

lemma well_typed_calls_return:
  "wellFormed s \<Longrightarrow> dataOf s \<noteq> [] \<Longrightarrow> list_all wellTyped cs \<Longrightarrow> RemoveGrid \<notin> set (butlast cs) \<Longrightarrow>
   \<exists>ss. afterEachCall cs s = Inr ss \<and> length ss = length cs"
proof (induction cs arbitrary: s)
  case Nil
  then show ?case by simp
next
  case (Cons c cs)
  show ?case
  proof (cases "cs = []")
    case True
    from call_on_grid[OF Cons.prems(1,2), of c] Cons.prems(3) obtain s' where
      "callMutator c s = Inr s'" by auto
    with True show ?thesis by simp
  next
    case False
    with Cons.prems(4) have c: "c \<noteq> RemoveGrid" "RemoveGrid \<notin> set (butlast cs)" by auto
    from call_keeps_grid[OF Cons.prems(1,2) _ c(1)] Cons.prems(3) obtain s' where
      s': "callMutator c s = Inr s'" "wellFormed s'" "dataOf s' \<noteq> []" by auto
    from Cons.IH[OF s'(2,3) _ c(2)] Cons.prems(3) obtain ss where
      "afterEachCall cs s' = Inr ss" "length ss = length cs" by auto
    with s'(1) show ?thesis by simp
  qed
qed



end
